theory Spec2Isabelle
  imports Complex_Main
begin

section \<open>Shellfish QMRA: the simulation core of \<open>shellfish_app.py\<close>\<close>

text \<open>
  The development embeds the Monte Carlo core of the application: the dose-response
  function, the dose discretizer, the four samplers and the orchestrating function
  \<open>run_shellfish_qmra_advanced\<close>.

  Numbers. A NumPy \<open>float64\<close> is modelled by the type \<open>float64\<close> below: a finite value is
  the real number it denotes, and the three special values of IEEE 754 (the two infinities
  and NaN) are kept, with their arithmetic. Arithmetic on finite values is exact: rounding,
  overflow and underflow of finite results and the sign of zero are not modelled. Python
  scalars that configure a run (effluent bounds, meal size, ...) are finite reals, Python
  integers are \<open>int\<close>.

  Randomness. The source draws from NumPy's global generator (and SciPy draws from the same
  generator). The generator is a hidden state of type \<open>'s\<close>; the library routines that read
  and advance it are the fields of the record \<open>np_random\<close>, and every sampling function of
  the model takes the state and returns the new one. Nothing is assumed about the values a
  routine returns beyond its result type, unless a theorem says so.
\<close>

subsection \<open>Values of type \<open>float64\<close>\<close>

datatype float64 = Finite real | PosInf | NegInf | NaN

fun isnan :: "float64 \<Rightarrow> bool" where
  "isnan NaN = True"
| "isnan _ = False"

fun f_neg :: "float64 \<Rightarrow> float64" where
  "f_neg (Finite a) = Finite (- a)"
| "f_neg PosInf = NegInf"
| "f_neg NegInf = PosInf"
| "f_neg NaN = NaN"

fun f_add :: "float64 \<Rightarrow> float64 \<Rightarrow> float64" where
  "f_add NaN _ = NaN"
| "f_add _ NaN = NaN"
| "f_add (Finite a) (Finite b) = Finite (a + b)"
| "f_add PosInf NegInf = NaN"
| "f_add NegInf PosInf = NaN"
| "f_add PosInf _ = PosInf"
| "f_add _ PosInf = PosInf"
| "f_add NegInf _ = NegInf"
| "f_add _ NegInf = NegInf"

definition f_sub :: "float64 \<Rightarrow> float64 \<Rightarrow> float64" where
  "f_sub a b = f_add a (f_neg b)"

text \<open>The sign of an infinity times or over a finite value; zero counts as \<open>+0\<close> in a quotient.\<close>

fun f_mul :: "float64 \<Rightarrow> float64 \<Rightarrow> float64" where
  "f_mul NaN _ = NaN"
| "f_mul _ NaN = NaN"
| "f_mul (Finite a) (Finite b) = Finite (a * b)"
| "f_mul PosInf (Finite b) = (if b = 0 then NaN else if 0 < b then PosInf else NegInf)"
| "f_mul NegInf (Finite b) = (if b = 0 then NaN else if 0 < b then NegInf else PosInf)"
| "f_mul (Finite a) PosInf = (if a = 0 then NaN else if 0 < a then PosInf else NegInf)"
| "f_mul (Finite a) NegInf = (if a = 0 then NaN else if 0 < a then NegInf else PosInf)"
| "f_mul PosInf PosInf = PosInf"
| "f_mul NegInf NegInf = PosInf"
| "f_mul PosInf NegInf = NegInf"
| "f_mul NegInf PosInf = NegInf"

text \<open>
  Division of arrays never raises in NumPy: a zero divisor gives an infinity, or NaN for
  \<open>0 / 0\<close>, with a warning only.
\<close>

fun f_div :: "float64 \<Rightarrow> float64 \<Rightarrow> float64" where
  "f_div NaN _ = NaN"
| "f_div _ NaN = NaN"
| "f_div (Finite a) (Finite b) =
     (if b \<noteq> 0 then Finite (a / b)
      else if a = 0 then NaN else if 0 < a then PosInf else NegInf)"
| "f_div (Finite a) PosInf = Finite 0"
| "f_div (Finite a) NegInf = Finite 0"
| "f_div PosInf (Finite b) = (if 0 \<le> b then PosInf else NegInf)"
| "f_div NegInf (Finite b) = (if 0 \<le> b then NegInf else PosInf)"
| "f_div _ _ = NaN"

fun np_exp :: "float64 \<Rightarrow> float64" where
  "np_exp (Finite a) = Finite (exp a)"
| "np_exp PosInf = PosInf"
| "np_exp NegInf = Finite 0"
| "np_exp NaN = NaN"

fun np_sqrt :: "float64 \<Rightarrow> float64" where
  "np_sqrt (Finite a) = (if a < 0 then NaN else Finite (sqrt a))"
| "np_sqrt PosInf = PosInf"
| "np_sqrt NegInf = NaN"
| "np_sqrt NaN = NaN"

text \<open>\<open>np.maximum\<close> and \<open>np.minimum\<close> return NaN as soon as one operand is NaN.\<close>

fun np_maximum :: "float64 \<Rightarrow> float64 \<Rightarrow> float64" where
  "np_maximum NaN _ = NaN"
| "np_maximum _ NaN = NaN"
| "np_maximum PosInf _ = PosInf"
| "np_maximum _ PosInf = PosInf"
| "np_maximum NegInf b = b"
| "np_maximum a NegInf = a"
| "np_maximum (Finite a) (Finite b) = Finite (max a b)"

fun np_minimum :: "float64 \<Rightarrow> float64 \<Rightarrow> float64" where
  "np_minimum NaN _ = NaN"
| "np_minimum _ NaN = NaN"
| "np_minimum NegInf _ = NegInf"
| "np_minimum _ NegInf = NegInf"
| "np_minimum PosInf b = b"
| "np_minimum a PosInf = a"
| "np_minimum (Finite a) (Finite b) = Finite (min a b)"

text \<open>A probability: a finite value between 0 and 1.\<close>

fun is_probability :: "float64 \<Rightarrow> bool" where
  "is_probability (Finite p) = (0 \<le> p \<and> p \<le> 1)"
| "is_probability _ = False"



subsection \<open>Global parameters\<close>

definition ALPHA :: real where "ALPHA = 4 / 100"
definition BETA :: real where "BETA = 55 / 1000"
definition MHF_MEAN :: real where "MHF_MEAN = 185 / 10"
definition PROPORTION_SUSCEPTIBLE :: real where "PROPORTION_SUSCEPTIBLE = 74 / 100"
definition PR_ILLNESS_GIVEN_INFECTION :: real where "PR_ILLNESS_GIVEN_INFECTION = 6 / 10"
definition PR_ILLNESS :: real where
  "PR_ILLNESS = PROPORTION_SUSCEPTIBLE * PR_ILLNESS_GIVEN_INFECTION"

definition MEAL_SIZE_A :: real where "MEAL_SIZE_A = 22046 / 10000"
definition MEAL_SIZE_B :: real where "MEAL_SIZE_B = 75072 / 1000"
definition MEAL_SIZE_G :: real where "MEAL_SIZE_G = - (9032 / 10000)"
definition MEAL_SIZE_MIN :: real where "MEAL_SIZE_MIN = 5"
definition MEAL_SIZE_MAX :: real where "MEAL_SIZE_MAX = 800"

definition BAF_MEAN :: real where "BAF_MEAN = 185 / 10"
definition BAF_STD :: real where "BAF_STD = 52 / 10"

subsection \<open>The logarithm of the gamma function\<close>

text \<open>
  \<open>scipy.special.gammaln\<close> is library code: it returns \<open>ln |\<Gamma>(x)|\<close>. The function is defined
  here by Gauss's limit
  \<open>\<Gamma>(x) = lim n! n\<^sup>x / (x (x + 1) \<dots> (x + n))\<close>, taken in logarithms; \<open>ln\<close> on the reals
  is the logarithm of the absolute value. At a pole (zero or a negative integer) the library
  returns \<open>+inf\<close>, and a non-finite argument is returned unchanged.
\<close>

definition ln_Gamma_seq :: "real \<Rightarrow> nat \<Rightarrow> real" where
  "ln_Gamma_seq x n = x * ln (real n) + ln (fact n) - (\<Sum>k\<le>n. ln \<bar>x + real k\<bar>)"

definition ln_Gamma :: "real \<Rightarrow> real" where
  "ln_Gamma x = lim (ln_Gamma_seq x)"

fun gammaln :: "float64 \<Rightarrow> float64" where
  "gammaln (Finite x) =
     (if x \<le> 0 \<and> of_int \<lfloor>x\<rfloor> = x then PosInf else Finite (ln_Gamma x))"
| "gammaln PosInf = PosInf"
| "gammaln NegInf = NegInf"
| "gammaln NaN = NaN"

subsection \<open>Dose-response: \<open>beta_binomial_infection_prob\<close>\<close>

text \<open>
  The source works on a whole array at once; \<open>log_prob_complement\<close> and \<open>clamp_unit\<close> are
  what it does to one entry. The sum is evaluated from left to right, as Python does.
\<close>

definition log_prob_complement :: "real \<Rightarrow> real \<Rightarrow> float64 \<Rightarrow> float64" where
  "log_prob_complement alpha beta dose =
     f_sub
       (f_sub
          (f_add (gammaln (f_add (Finite beta) dose)) (gammaln (Finite (alpha + beta))))
          (gammaln (f_add (Finite (alpha + beta)) dose)))
       (gammaln (Finite beta))"

definition clamp_unit :: "float64 \<Rightarrow> float64" where
  "clamp_unit prob = np_minimum (np_maximum prob (Finite 0)) (Finite 1)"

definition beta_binomial_infection_prob :: "float64 list \<Rightarrow> real \<Rightarrow> real \<Rightarrow> float64 list" where
  "beta_binomial_infection_prob dose alpha beta =
     map (\<lambda>d. clamp_unit (f_sub (Finite 1) (np_exp (log_prob_complement alpha beta d)))) dose"

subsection \<open>Errors and the random generator\<close>

text \<open>
  An exception is a value: a function that can raise returns \<open>py_error + 'a\<close>, and a
  function that also draws returns the generator state it leaves behind in either case.
\<close>

datatype py_error = ValueError string | ZeroDivisionError

definition py_div :: "real \<Rightarrow> real \<Rightarrow> py_error + real" where
  "py_div a b = (if b = 0 then Inl ZeroDivisionError else Inr (a / b))"

text \<open>
  The routines of the generator that the source calls, each for one variate:
  \<open>np.random.random()\<close>, one Bernoulli trial of \<open>np.random.binomial(1, p)\<close>, one index of
  \<open>np.random.choice\<close> among \<open>n\<close> positions, \<open>np.random.normal(mean, std)\<close>,
  \<open>np.random.triangular(left, mode, right)\<close> and \<open>fisk.rvs(c, loc, scale)\<close>.
\<close>

record 's np_random =
  gen_random :: "'s \<Rightarrow> real \<times> 's"
  gen_bernoulli :: "real \<Rightarrow> 's \<Rightarrow> bool \<times> 's"
  gen_randint :: "nat \<Rightarrow> 's \<Rightarrow> nat \<times> 's"
  gen_normal :: "real \<Rightarrow> real \<Rightarrow> 's \<Rightarrow> real \<times> 's"
  gen_triangular :: "real \<Rightarrow> real \<Rightarrow> real \<Rightarrow> 's \<Rightarrow> real \<times> 's"
  gen_fisk :: "real \<Rightarrow> real \<Rightarrow> real \<Rightarrow> 's \<Rightarrow> real \<times> 's"

text \<open>A vectorised call draws its variates one after the other, in the order of the array.\<close>

fun draw_many :: "('s \<Rightarrow> 'a \<times> 's) \<Rightarrow> nat \<Rightarrow> 's \<Rightarrow> 'a list \<times> 's" where
  "draw_many g 0 s = ([], s)"
| "draw_many g (Suc n) s =
     (case g s of (x, s1) \<Rightarrow> (case draw_many g n s1 of (xs, s2) \<Rightarrow> (x # xs, s2)))"

fun draw_each :: "('p \<Rightarrow> 's \<Rightarrow> 'a \<times> 's) \<Rightarrow> 'p list \<Rightarrow> 's \<Rightarrow> 'a list \<times> 's" where
  "draw_each g [] s = ([], s)"
| "draw_each g (p # ps) s =
     (case g p s of (x, s1) \<Rightarrow> (case draw_each g ps s1 of (xs, s2) \<Rightarrow> (x # xs, s2)))"

fun the_finite :: "float64 \<Rightarrow> real" where
  "the_finite (Finite a) = a"
| "the_finite _ = 0"

text \<open>
  \<open>np.random.binomial(1, p)\<close> for an array \<open>p\<close>: NumPy checks the whole array first and raises
  \<open>ValueError\<close> when an entry is below 0, above 1 or NaN; otherwise it draws one trial per
  entry.
\<close>

definition np_random_binomial ::
  "'s np_random \<Rightarrow> float64 list \<Rightarrow> 's \<Rightarrow> (py_error + nat list) \<times> 's" where
  "np_random_binomial L p s =
     (if list_all is_probability p then
        (case draw_each (gen_bernoulli L) (map the_finite p) s of
           (bs, s1) \<Rightarrow> (Inr (map of_bool bs), s1))
      else (Inl (ValueError ''p < 0, p > 1 or p contains NaNs''), s))"

text \<open>\<open>np.random.binomial(1, p, size=k)\<close> for a scalar \<open>p\<close>.\<close>

definition np_random_binomial_size ::
  "'s np_random \<Rightarrow> real \<Rightarrow> nat \<Rightarrow> 's \<Rightarrow> (py_error + nat list) \<times> 's" where
  "np_random_binomial_size L p k s =
     (if 0 \<le> p \<and> p \<le> 1 then
        (case draw_many (gen_bernoulli L p) k s of (bs, s1) \<Rightarrow> (Inr (map of_bool bs), s1))
      else (Inl (ValueError ''p < 0, p > 1 or p is NaN''), s))"

text \<open>
  The law of one trial, from NumPy's documentation: success has probability \<open>p\<close>. The mean
  of a function of the outcome is then the sum over the two outcomes.
\<close>

definition bernoulli_mean :: "real \<Rightarrow> (bool \<Rightarrow> real) \<Rightarrow> real" where
  "bernoulli_mean p f = (1 - p) * f False + p * f True"

subsection \<open>\<open>discretize_dose\<close>\<close>

text \<open>
  \<open>np.floor(dose).astype(int)\<close>: the target type is \<open>int64\<close>. A floor inside
  \<open>[-2\<^sup>6\<^sup>3, 2\<^sup>6\<^sup>3)\<close> is kept; for a floor outside that range, an infinity or NaN the cast
  is left open by NumPy, and gives the smallest 64-bit integer on x86-64. In each of these
  cases the fractional part computed next is not a probability, so the Bernoulli draw raises
  and the integer is never returned.
\<close>

fun floor_astype_int :: "float64 \<Rightarrow> int" where
  "floor_astype_int (Finite a) =
     (if - (2 ^ 63) \<le> \<lfloor>a\<rfloor> \<and> \<lfloor>a\<rfloor> < 2 ^ 63 then \<lfloor>a\<rfloor> else - (2 ^ 63))"
| "floor_astype_int _ = - (2 ^ 63)"

definition discretize_dose ::
  "'s np_random \<Rightarrow> float64 list \<Rightarrow> 's \<Rightarrow> (py_error + int list) \<times> 's" where
  "discretize_dose L dose s =
     (let integer_part = map floor_astype_int dose;
          fractional_part = map2 (\<lambda>d i. f_sub d (Finite (of_int i))) dose integer_part
      in case np_random_binomial L fractional_part s of
           (Inl e, s1) \<Rightarrow> (Inl e, s1)
         | (Inr fractional_organisms, s1) \<Rightarrow>
             (Inr (map2 (\<lambda>i b. i + int b) integer_part fractional_organisms), s1))"

subsection \<open>\<open>sample_meal_size_loglogistic\<close>\<close>

text \<open>
  The \<open>while\<close> loop draws until enough variates have been accepted; nothing bounds the
  number of attempts, so the loop is a partial function and \<open>None\<close> stands for a run
  that does not return.
\<close>

partial_function (option) meal_size_loop ::
  "'s np_random \<Rightarrow> int \<Rightarrow> real list \<Rightarrow> 's \<Rightarrow> (real list \<times> 's) option" where
  "meal_size_loop L n_samples samples s =
     (if int (length samples) < n_samples then
        (case gen_fisk L MEAL_SIZE_A MEAL_SIZE_G MEAL_SIZE_B s of
           (sample, s1) \<Rightarrow>
             if MEAL_SIZE_MIN \<le> sample \<and> sample \<le> MEAL_SIZE_MAX
             then meal_size_loop L n_samples (samples @ [sample]) s1
             else meal_size_loop L n_samples samples s1)
      else Some (samples, s))"

text \<open>The slice \<open>xs[:n]\<close> of Python.\<close>

definition py_slice_to :: "int \<Rightarrow> 'a list \<Rightarrow> 'a list" where
  "py_slice_to n xs =
     (if 0 \<le> n then take (nat n) xs else take (length xs - nat (- n)) xs)"

definition sample_meal_size_loglogistic ::
  "'s np_random \<Rightarrow> int \<Rightarrow> 's \<Rightarrow> (real list \<times> 's) option" where
  "sample_meal_size_loglogistic L n_samples s =
     (case meal_size_loop L n_samples [] s of
        None \<Rightarrow> None
      | Some (samples, s1) \<Rightarrow> Some (py_slice_to n_samples samples, s1))"

subsection \<open>\<open>sample_baf\<close>\<close>

text \<open>\<open>np.random.normal\<close> raises \<open>ValueError\<close> for a negative scale and for a negative size.\<close>

definition sample_baf ::
  "'s np_random \<Rightarrow> int \<Rightarrow> real \<Rightarrow> real \<Rightarrow> 's \<Rightarrow> (py_error + real list) \<times> 's" where
  "sample_baf L n_samples mean std s =
     (if std < 0 then (Inl (ValueError ''scale < 0''), s)
      else if n_samples < 0 then (Inl (ValueError ''negative dimensions are not allowed''), s)
      else (case draw_many (gen_normal L mean std) (nat n_samples) s of
              (samples, s1) \<Rightarrow> (Inr (map (\<lambda>x. max x 1) samples), s1)))"

subsection \<open>\<open>sample_hockey_stick_concentration\<close>\<close>

text \<open>
  The three branches of the transform of one uniform variate \<open>u\<close>. The bounds are Python
  scalars (the caller reads them from a row of mixed type), so a zero divisor raises
  \<open>ZeroDivisionError\<close>; the square root is NumPy's, and gives NaN below zero.
\<close>

definition lower_segment :: "real \<Rightarrow> real \<Rightarrow> real \<Rightarrow> real \<Rightarrow> py_error + float64" where
  "lower_segment x0 x50 h1 u =
     (case py_div (u * 2 * (x50 - x0)) h1 of
        Inl e \<Rightarrow> Inl e
      | Inr a \<Rightarrow> Inr (f_add (Finite x0) (np_sqrt (Finite a))))"

definition middle_segment :: "real \<Rightarrow> real \<Rightarrow> real \<Rightarrow> real \<Rightarrow> py_error + float64" where
  "middle_segment x50 xp percentile_break u =
     (case py_div ((u - 1 / 2) * (xp - x50)) (percentile_break - 1 / 2) of
        Inl e \<Rightarrow> Inl e
      | Inr a \<Rightarrow> Inr (Finite (x50 + a)))"

definition upper_segment :: "real \<Rightarrow> real \<Rightarrow> real \<Rightarrow> real \<Rightarrow> py_error + float64" where
  "upper_segment x100 xp percentile_break u =
     (case py_div ((u - percentile_break) * (x100 - xp)) (1 - percentile_break) of
        Inl e \<Rightarrow> Inl e
      | Inr a \<Rightarrow> Inr (Finite (xp + a)))"

definition hockey_stick_transform ::
  "real \<Rightarrow> real \<Rightarrow> real \<Rightarrow> real \<Rightarrow> real \<Rightarrow> real \<Rightarrow> real \<Rightarrow> py_error + float64" where
  "hockey_stick_transform x0 x50 x100 percentile_break h1 xp u =
     (if u \<le> 1 / 2 then lower_segment x0 x50 h1 u
      else if u \<le> percentile_break then middle_segment x50 xp percentile_break u
      else upper_segment x100 xp percentile_break u)"

fun hockey_stick_loop ::
  "'s np_random \<Rightarrow> real \<Rightarrow> real \<Rightarrow> real \<Rightarrow> real \<Rightarrow> real \<Rightarrow> real \<Rightarrow> nat \<Rightarrow> 's
     \<Rightarrow> (py_error + float64 list) \<times> 's" where
  "hockey_stick_loop L x0 x50 x100 pb h1 xp 0 s = (Inr [], s)"
| "hockey_stick_loop L x0 x50 x100 pb h1 xp (Suc n) s =
     (case gen_random L s of
        (u, s1) \<Rightarrow>
          (case hockey_stick_transform x0 x50 x100 pb h1 xp u of
             Inl e \<Rightarrow> (Inl e, s1)
           | Inr x \<Rightarrow>
               (case hockey_stick_loop L x0 x50 x100 pb h1 xp n s1 of
                  (Inl e, s2) \<Rightarrow> (Inl e, s2)
                | (Inr xs, s2) \<Rightarrow> (Inr (x # xs), s2))))"

text \<open>
  \<open>h1 = 2 * 0.5 / (x50 - x0)\<close> is computed before the loop, whatever \<open>n_samples\<close> is;
  \<open>range(n_samples)\<close> is empty for a negative count. The variables \<open>q\<close> and \<open>s\<close> of the
  source are never read.
\<close>

definition hockey_h1 :: "real \<Rightarrow> real \<Rightarrow> py_error + real" where
  "hockey_h1 x0 x50 = py_div (2 * (1 / 2)) (x50 - x0)"

definition hockey_xp :: "real \<Rightarrow> real \<Rightarrow> real \<Rightarrow> real" where
  "hockey_xp x50 x100 percentile_break = x50 + (x100 - x50) * percentile_break"

definition sample_hockey_stick_concentration ::
  "'s np_random \<Rightarrow> int \<Rightarrow> real \<Rightarrow> real \<Rightarrow> real \<Rightarrow> real \<Rightarrow> 's
     \<Rightarrow> (py_error + float64 list) \<times> 's" where
  "sample_hockey_stick_concentration L n_samples x0 x50 x100 percentile_break s =
     (case hockey_h1 x0 x50 of
        Inl e \<Rightarrow> (Inl e, s)
      | Inr h1 \<Rightarrow>
          hockey_stick_loop L x0 x50 x100 percentile_break h1
            (hockey_xp x50 x100 percentile_break) (nat n_samples) s)"

subsection \<open>\<open>sample_ecdf\<close>\<close>

text \<open>
  \<open>np.random.choice(a, size=n, replace=True)\<close> draws \<open>n\<close> positions of \<open>a\<close> and returns the
  entries there. It raises \<open>ValueError\<close> for an empty \<open>a\<close> when samples are asked for, and for
  a negative size. The library draws its positions inside the array; the entry read at a
  position outside it is left open here, and the theorems on the resampler assume
  \<open>randint_in_range\<close> (defined below).
\<close>

definition np_random_choice ::
  "'s np_random \<Rightarrow> 'a list \<Rightarrow> int \<Rightarrow> 's \<Rightarrow> (py_error + 'a list) \<times> 's" where
  "np_random_choice L a n s =
     (if a = [] \<and> n \<noteq> 0
      then (Inl (ValueError ''a cannot be empty unless no samples are taken''), s)
      else if n < 0 then (Inl (ValueError ''negative dimensions are not allowed''), s)
      else (case draw_many (gen_randint L (length a)) (nat n) s of
              (idx, s1) \<Rightarrow> (Inr (map (\<lambda>i. a ! i) idx), s1)))"

definition sample_ecdf ::
  "'s np_random \<Rightarrow> float64 list \<Rightarrow> int \<Rightarrow> 's \<Rightarrow> (py_error + float64 list) \<times> 's" where
  "sample_ecdf L dilution_data n_samples s =
     (let cleaned = filter (\<lambda>x. \<not> isnan x) dilution_data
      in if length cleaned = 0
         then (Inl (ValueError ''No valid dilution data provided''), s)
         else np_random_choice L cleaned n_samples s)"

subsection \<open>\<open>run_shellfish_qmra_advanced\<close>\<close>

text \<open>
  The arguments of the function. The population size is a count; \<open>iterations\<close> is an integer,
  because the source runs (and fails) on a negative one. The argument \<open>progress_bar\<close> is only
  notified at the end of a run and is left out.
\<close>

record run_args =
  site_name :: string
  dilution_data :: "float64 list"
  effluent_min :: real
  effluent_median :: real
  effluent_max :: real
  log_removal_wwtp :: real
  num_people :: nat
  iterations :: int
  mode :: string
  meal_size_fixed :: real
  mhf_fixed :: real
  use_hockey_stick :: bool
  use_variable_baf :: bool

text \<open>
  The result dictionary, without the floating-point summaries (means, medians, percentiles
  and risk per person): they are computed from the two count arrays and from the raw dilution
  data, and change neither the arrays nor the control flow.
\<close>

record qmra_result =
  res_site_name :: string
  res_mode :: string
  res_num_people :: nat
  res_iterations :: int
  infections_min :: nat
  infections_max :: nat
  infections_distribution :: "nat list"
  illness_min :: nat
  illness_max :: nat
  illness_distribution :: "nat list"

text \<open>
  \<open>np.random.triangular\<close> checks its bounds before it draws: \<open>left > mode\<close>, \<open>mode > right\<close>
  and \<open>left == right\<close> raise \<open>ValueError\<close>, and so does a negative size.
\<close>

definition np_random_triangular ::
  "'s np_random \<Rightarrow> real \<Rightarrow> real \<Rightarrow> real \<Rightarrow> int \<Rightarrow> 's \<Rightarrow> (py_error + float64 list) \<times> 's" where
  "np_random_triangular L left mid right n s =
     (if mid < left then (Inl (ValueError ''left > mode''), s)
      else if right < mid then (Inl (ValueError ''mode > right''), s)
      else if left = right then (Inl (ValueError ''left == right''), s)
      else if n < 0 then (Inl (ValueError ''negative dimensions are not allowed''), s)
      else (case draw_many (gen_triangular L left mid right) (nat n) s of
              (xs, s1) \<Rightarrow> (Inr (map Finite xs), s1)))"

text \<open>
  A two-dimensional array is the list of its rows. \<open>reshape r c\<close> cuts a flat array into \<open>r\<close>
  rows of \<open>c\<close> entries, \<open>concat\<close> is \<open>flatten\<close>. Every array the source reshapes has
  \<open>iterations * num_people\<close> entries, so the size check of NumPy cannot fail there.
\<close>

fun reshape :: "nat \<Rightarrow> nat \<Rightarrow> 'a list \<Rightarrow> 'a list list" where
  "reshape 0 c xs = []"
| "reshape (Suc r) c xs = take c xs # reshape r c (drop c xs)"

definition np_full :: "nat \<Rightarrow> nat \<Rightarrow> 'a \<Rightarrow> 'a list list" where
  "np_full r c v = replicate r (replicate c v)"

text \<open>
  \<open>ill = np.zeros_like(infected); ill[infected == 1] = values\<close> on the flattened arrays: the
  values go, in order, to the positions where \<open>infected\<close> is 1, the other positions stay 0.
  NumPy raises when the number of values is not the number of such positions.
\<close>

fun mask_assign :: "nat list \<Rightarrow> nat list \<Rightarrow> nat list option" where
  "mask_assign [] [] = Some []"
| "mask_assign [] (v # vs) = None"
| "mask_assign (x # xs) vs =
     (if x = 1 then
        (case vs of
           [] \<Rightarrow> None
         | v # vs' \<Rightarrow> map_option (\<lambda>ill. v # ill) (mask_assign xs vs'))
      else map_option (\<lambda>ill. 0 # ill) (mask_assign xs vs))"

text \<open>\<open>np.min\<close> and \<open>np.max\<close> raise \<open>ValueError\<close> on an empty array.\<close>

definition np_min :: "nat list \<Rightarrow> py_error + nat" where
  "np_min xs =
     (case xs of
        [] \<Rightarrow> Inl (ValueError ''zero-size array to reduction operation minimum which has no identity'')
      | x # rest \<Rightarrow> Inr (fold min rest x))"

definition np_max :: "nat list \<Rightarrow> py_error + nat" where
  "np_max xs =
     (case xs of
        [] \<Rightarrow> Inl (ValueError ''zero-size array to reduction operation maximum which has no identity'')
      | x # rest \<Rightarrow> Inr (fold max rest x))"

text \<open>Step 1: the effluent concentrations, one per iteration.\<close>

definition effluent_concentrations ::
  "'s np_random \<Rightarrow> run_args \<Rightarrow> 's \<Rightarrow> (py_error + float64 list) \<times> 's" where
  "effluent_concentrations L a s =
     (if use_hockey_stick a then
        sample_hockey_stick_concentration L (iterations a)
          (effluent_min a) (effluent_median a) (effluent_max a) (95 / 100) s
      else
        np_random_triangular L (effluent_min a) (effluent_median a) (effluent_max a)
          (iterations a) s)"

text \<open>Steps 1 to 4: treatment, then the dilution drawn from the empirical data.\<close>

definition site_concentrations ::
  "'s np_random \<Rightarrow> run_args \<Rightarrow> 's \<Rightarrow> (py_error + float64 list) \<times> 's" where
  "site_concentrations L a s =
     (case effluent_concentrations L a s of
        (Inl e, s1) \<Rightarrow> (Inl e, s1)
      | (Inr effluent_conc, s1) \<Rightarrow>
          (let treated_conc =
                 map (\<lambda>c. f_div c (Finite (10 powr log_removal_wwtp a))) effluent_conc
           in case sample_ecdf L (dilution_data a) (iterations a) s1 of
                (Inl e, s2) \<Rightarrow> (Inl e, s2)
              | (Inr dilution_sampled, s2) \<Rightarrow>
                  (Inr (map2 f_div treated_conc dilution_sampled), s2)))"

text \<open>
  Step 5: meal sizes and bioaccumulation factors for every iteration and person. At this
  point \<open>iterations\<close> is not negative: step 3 has drawn that many values.
\<close>

definition exposure_factors ::
  "'s np_random \<Rightarrow> run_args \<Rightarrow> 's
     \<Rightarrow> ((py_error + real list list \<times> real list list) \<times> 's) option" where
  "exposure_factors L a s =
     (let r = nat (iterations a); c = num_people a
      in if mode a = ''advanced'' then
           (case sample_meal_size_loglogistic L (iterations a * int c) s of
              None \<Rightarrow> None
            | Some (meal, s1) \<Rightarrow>
                if use_variable_baf a then
                  (case sample_baf L (iterations a * int c) BAF_MEAN BAF_STD s1 of
                     (Inl e, s2) \<Rightarrow> Some (Inl e, s2)
                   | (Inr baf, s2) \<Rightarrow> Some (Inr (reshape r c meal, reshape r c baf), s2))
                else Some (Inr (reshape r c meal, np_full r c (mhf_fixed a)), s1))
         else Some (Inr (np_full r c (meal_size_fixed a), np_full r c (mhf_fixed a)), s))"

text \<open>Step 6: the dose of each person, the site concentration broadcast along its row.\<close>

definition continuous_doses ::
  "float64 list \<Rightarrow> real list list \<Rightarrow> real list list \<Rightarrow> float64 list list" where
  "continuous_doses site_conc meal_sizes bafs =
     map (\<lambda>(c, ms, bs). map2 (\<lambda>m b. f_mul (f_mul c (Finite (m / 1000))) (Finite b)) ms bs)
       (zip site_conc (zip meal_sizes bafs))"

text \<open>Steps 7 and 8: discretized doses and their infection probabilities.\<close>

definition infection_probabilities ::
  "'s np_random \<Rightarrow> float64 list list \<Rightarrow> nat \<Rightarrow> nat \<Rightarrow> 's
     \<Rightarrow> (py_error + float64 list list) \<times> 's" where
  "infection_probabilities L doses_continuous r c s =
     (case discretize_dose L (concat doses_continuous) s of
        (Inl e, s1) \<Rightarrow> (Inl e, s1)
      | (Inr d, s1) \<Rightarrow>
          (let doses_discrete = reshape r c d
           in (Inr (reshape r c
                 (beta_binomial_infection_prob
                    (map (\<lambda>i. Finite (of_int i)) (concat doses_discrete)) ALPHA BETA)), s1)))"

text \<open>Step 9: one infection trial per person.\<close>

definition infection_outcomes ::
  "'s np_random \<Rightarrow> float64 list list \<Rightarrow> nat \<Rightarrow> nat \<Rightarrow> 's
     \<Rightarrow> (py_error + nat list list) \<times> 's" where
  "infection_outcomes L p_infection r c s =
     (case np_random_binomial L (concat p_infection) s of
        (Inl e, s1) \<Rightarrow> (Inl e, s1)
      | (Inr infected, s1) \<Rightarrow> (Inr (reshape r c infected), s1))"

text \<open>Step 10: one illness trial per infected person, nobody else is ill.\<close>

definition illness_outcomes ::
  "'s np_random \<Rightarrow> nat list list \<Rightarrow> nat \<Rightarrow> nat \<Rightarrow> 's \<Rightarrow> (py_error + nat list list) \<times> 's" where
  "illness_outcomes L infected r c s =
     (case np_random_binomial_size L PR_ILLNESS_GIVEN_INFECTION (sum_list (concat infected)) s of
        (Inl e, s1) \<Rightarrow> (Inl e, s1)
      | (Inr vs, s1) \<Rightarrow>
          (case mask_assign (concat infected) vs of
             None \<Rightarrow> (Inl (ValueError ''cannot assign the input values to the output values where the mask is true''), s1)
           | Some ill \<Rightarrow> (Inr (reshape r c ill), s1)))"

text \<open>
  Step 11 and the result dictionary: the counts per iteration and their extremes. With no
  iteration at all, \<open>np.min\<close> raises.
\<close>

definition build_results :: "run_args \<Rightarrow> nat list \<Rightarrow> nat list \<Rightarrow> py_error + qmra_result" where
  "build_results a total_infections_all total_illness_all =
     (case np_min total_infections_all of Inl e \<Rightarrow> Inl e | Inr inf_min \<Rightarrow>
      case np_max total_infections_all of Inl e \<Rightarrow> Inl e | Inr inf_max \<Rightarrow>
      case np_min total_illness_all of Inl e \<Rightarrow> Inl e | Inr ill_min \<Rightarrow>
      case np_max total_illness_all of Inl e \<Rightarrow> Inl e | Inr ill_max \<Rightarrow>
        Inr \<lparr>res_site_name = site_name a, res_mode = mode a,
             res_num_people = num_people a, res_iterations = iterations a,
             infections_min = inf_min, infections_max = inf_max,
             infections_distribution = total_infections_all,
             illness_min = ill_min, illness_max = ill_max,
             illness_distribution = total_illness_all\<rparr>)"

text \<open>The whole run; \<open>None\<close> when the meal-size loop of step 5 does not return.\<close>

definition run_shellfish_qmra_advanced ::
  "'s np_random \<Rightarrow> run_args \<Rightarrow> 's \<Rightarrow> ((py_error + qmra_result) \<times> 's) option" where
  "run_shellfish_qmra_advanced L a s =
     (case site_concentrations L a s of
        (Inl e, s1) \<Rightarrow> Some (Inl e, s1)
      | (Inr site_conc, s1) \<Rightarrow>
     (case exposure_factors L a s1 of
        None \<Rightarrow> None
      | Some (Inl e, s2) \<Rightarrow> Some (Inl e, s2)
      | Some (Inr (meal_sizes, bafs), s2) \<Rightarrow>
     (let r = nat (iterations a); c = num_people a;
          doses_continuous = continuous_doses site_conc meal_sizes bafs
      in case infection_probabilities L doses_continuous r c s2 of
        (Inl e, s3) \<Rightarrow> Some (Inl e, s3)
      | (Inr p_infection, s3) \<Rightarrow>
     (case infection_outcomes L p_infection r c s3 of
        (Inl e, s4) \<Rightarrow> Some (Inl e, s4)
      | (Inr infected, s4) \<Rightarrow>
     (case illness_outcomes L infected r c s4 of
        (Inl e, s5) \<Rightarrow> Some (Inl e, s5)
      | (Inr ill, s5) \<Rightarrow>
          Some (build_results a (map sum_list infected) (map sum_list ill), s5))))))"

subsection \<open>Conditions on the generator\<close>

text \<open>
  The acceptance test of the meal-size loop, and what \<open>np.random.choice\<close> promises about
  the generator: a position drawn among \<open>n\<close> is below \<open>n\<close>.
\<close>

definition meal_size_accepted :: "real \<Rightarrow> bool" where
  "meal_size_accepted x = (MEAL_SIZE_MIN \<le> x \<and> x \<le> MEAL_SIZE_MAX)"

text \<open>
  What the meal-size loop needs from \<open>fisk.rvs\<close>: the routine does not reject for ever. From
  every state of the generator, some finite number of draws contains a variate inside the
  truncation bounds. (For the log-logistic law with the parameters of the source about 99% of
  the mass lies inside the bounds.)
\<close>

definition fisk_accepts_eventually :: "'s np_random \<Rightarrow> bool" where
  "fisk_accepts_eventually L =
     (\<forall>s. \<exists>m. list_ex meal_size_accepted
        (fst (draw_many (gen_fisk L MEAL_SIZE_A MEAL_SIZE_G MEAL_SIZE_B) m s)))"

definition randint_in_range :: "'s np_random \<Rightarrow> bool" where
  "randint_in_range L = (\<forall>n s. 0 < n \<longrightarrow> fst (gen_randint L n s) < n)"


subsection \<open>A deterministic generator for concrete runs\<close>

text \<open>
  The state counts the variates drawn so far. Uniform variates are 0.7; a Bernoulli trial
  compares \<open>p\<close> with 0.1 at every third state and with 0.9 otherwise; \<open>choice\<close> takes the first
  position; the other routines return the centre of their distribution.
\<close>

definition test_generator :: "nat np_random" where
  "test_generator =
     \<lparr>gen_random = (\<lambda>s. (7 / 10, Suc s)),
      gen_bernoulli = (\<lambda>p s. ((if s mod 3 = 0 then 1 / 10 else 9 / 10) < p, Suc s)),
      gen_randint = (\<lambda>n s. (0, Suc s)),
      gen_normal = (\<lambda>mean std s. (mean, Suc s)),
      gen_triangular = (\<lambda>left mid right s. (mid, Suc s)),
      gen_fisk = (\<lambda>c loc scale s. (loc + scale, Suc s))\<rparr>"

definition test_args :: run_args where
  "test_args =
     \<lparr>site_name = ''Site A'', dilution_data = [NaN, Finite 2],
      effluent_min = 1, effluent_median = 10, effluent_max = 100,
      log_removal_wwtp = 0, num_people = 2, iterations = 2, mode = ''simple'',
      meal_size_fixed = 50, mhf_fixed = 1,
      use_hockey_stick = True, use_variable_baf = False\<rparr>"

section \<open>Properties\<close>

subsection \<open>The logarithm of the gamma function on the positive reals\<close>

text \<open>
  For \<open>x > 0\<close> the sequence of Gauss increases from its first term on and is bounded, so it
  converges; the limit satisfies \<open>ln \<Gamma>(x + 1) = ln \<Gamma>(x) + ln x\<close> and \<open>ln \<Gamma>(1) = 0\<close>, and the
  difference \<open>ln \<Gamma>(x + a) - ln \<Gamma>(x)\<close> does not decrease with \<open>x\<close>.
\<close>

lemma ln_one_plus_lower: "0 \<le> t \<Longrightarrow> t / (1 + t) \<le> ln (1 + t)" for t :: real
proof -
  assume t: "0 \<le> t"
  have "ln (1 / (1 + t)) \<le> 1 / (1 + t) - 1" using t by (intro ln_le_minus_one) simp
  moreover have "ln (1 / (1 + t)) = - ln (1 + t)" using t by (simp add: ln_div)
  moreover have "1 / (1 + t) - 1 = - (t / (1 + t))" using t by (simp add: field_simps)
  ultimately show ?thesis by simp
qed

lemma ln_Gamma_seq_step:
  assumes "0 < x" "0 < n"
  shows "ln_Gamma_seq x (Suc n) - ln_Gamma_seq x n = x * ln (1 + 1 / real n) - ln (1 + x / (real n + 1))"
proof -
  have "(1 + 1 / real n) = (real n + 1) / real n" using assms by (simp add: field_simps)
  then have a: "ln (1 + 1 / real n) = ln (real n + 1) - ln (real n)"
    using assms by (simp add: ln_div)
  have "1 + x / (real n + 1) = (x + real n + 1) / (real n + 1)" by (simp add: field_simps)
  then have b: "ln (1 + x / (real n + 1)) = ln (x + real n + 1) - ln (real n + 1)"
    using assms by (simp add: ln_div)
  have c: "ln (fact (Suc n) :: real) = ln (real n + 1) + ln (fact n)"
    by (simp add: ln_mult add.commute)
  have d: "\<bar>x + (1 + real n)\<bar> = x + real n + 1" using assms by simp
  show ?thesis
    unfolding ln_Gamma_seq_def a b
    using c d by (simp add: algebra_simps)
qed

lemma ln_Gamma_seq_step_nonneg:
  assumes "0 < x" "0 < n"
  shows "ln_Gamma_seq x n \<le> ln_Gamma_seq x (Suc n)"
proof -
  have "ln (1 + x / (real n + 1)) \<le> x / (real n + 1)"
    using assms by (intro ln_add_one_self_le_self) simp
  moreover have "(1 / real n) / (1 + 1 / real n) \<le> ln (1 + 1 / real n)"
    by (intro ln_one_plus_lower) simp
  moreover have "(1 / real n) / (1 + 1 / real n) = 1 / (real n + 1)"
    using assms by (simp add: field_simps)
  ultimately have "x * (1 / (real n + 1)) \<le> x * ln (1 + 1 / real n)"
    using assms by (intro mult_left_mono) auto
  with \<open>ln (1 + x / (real n + 1)) \<le> x / (real n + 1)\<close>
  have "0 \<le> x * ln (1 + 1 / real n) - ln (1 + x / (real n + 1))" by simp
  with ln_Gamma_seq_step [OF assms] show ?thesis by simp
qed

lemma ln_Gamma_seq_step_upper:
  assumes "0 < x" "0 < n"
  shows "ln_Gamma_seq x (Suc n) - ln_Gamma_seq x n \<le> x * (x + 1) * (1 / real n - 1 / (real n + 1))"
proof -
  have u: "ln (1 + 1 / real n) \<le> 1 / real n"
    by (intro ln_add_one_self_le_self) simp
  have "1 + x / (real n + 1) = (real n + 1 + x) / (real n + 1)"
    by (simp add: field_simps)
  then have "x / (real n + 1 + x) = (x / (real n + 1)) / (1 + x / (real n + 1))"
    by simp
  also have "\<dots> \<le> ln (1 + x / (real n + 1))"
    using assms by (intro ln_one_plus_lower) simp
  finally have l: "x / (real n + 1 + x) \<le> ln (1 + x / (real n + 1))" .
  have "x * ln (1 + 1 / real n) \<le> x * (1 / real n)"
    using u assms by (intro mult_left_mono) auto
  with l have "x * ln (1 + 1 / real n) - ln (1 + x / (real n + 1)) \<le> x / real n - x / (real n + 1 + x)"
    by simp
  also have "\<dots> = x * (x + 1) / (real n * (real n + 1 + x))"
    using assms by (simp add: field_simps)
  also have "\<dots> \<le> x * (x + 1) / (real n * (real n + 1))"
    using assms by (intro divide_left_mono mult_left_mono) (auto intro!: mult_pos_pos)
  also have "\<dots> = x * (x + 1) * (1 / real n - 1 / (real n + 1))"
    using assms by (simp add: field_simps)
  finally show ?thesis using ln_Gamma_seq_step [OF assms] by simp
qed

lemma ln_Gamma_seq_incseq: "0 < x \<Longrightarrow> incseq (\<lambda>n. ln_Gamma_seq x (Suc n))"
  by (rule incseq_SucI) (simp add: ln_Gamma_seq_step_nonneg)

lemma ln_Gamma_seq_bound:
  assumes "0 < x"
  shows "ln_Gamma_seq x (Suc n) \<le> ln_Gamma_seq x 1 + x * (x + 1) * (1 - 1 / (real n + 1))"
proof (induction n)
  case 0
  show ?case by simp
next
  case (Suc n)
  have "ln_Gamma_seq x (Suc (Suc n)) \<le> ln_Gamma_seq x (Suc n) + x * (x + 1) * (1 / real (Suc n) - 1 / (real (Suc n) + 1))"
    using ln_Gamma_seq_step_upper [OF assms, of "Suc n"] by simp
  also have "\<dots> \<le> ln_Gamma_seq x 1 + x * (x + 1) * (1 - 1 / (real n + 1)) + x * (x + 1) * (1 / real (Suc n) - 1 / (real (Suc n) + 1))"
    using Suc.IH by simp
  also have "\<dots> = ln_Gamma_seq x 1 + x * (x + 1) * (1 - 1 / (real (Suc n) + 1))"
    by (simp add: algebra_simps)
  finally show ?case .
qed

lemma ln_Gamma_seq_bounded:
  assumes "0 < x"
  shows "ln_Gamma_seq x (Suc n) \<le> ln_Gamma_seq x 1 + x * (x + 1)"
proof -
  have "x * (x + 1) * (1 - 1 / (real n + 1)) \<le> x * (x + 1) * 1"
    using assms by (intro mult_left_mono) auto
  with ln_Gamma_seq_bound [OF assms, of n] show ?thesis by simp
qed

lemma ln_Gamma_seq_tendsto:
  assumes "0 < x"
  shows "ln_Gamma_seq x \<longlonglongrightarrow> ln_Gamma x"
proof -
  obtain L where "(\<lambda>n. ln_Gamma_seq x (Suc n)) \<longlonglongrightarrow> L"
    using incseq_convergent [OF ln_Gamma_seq_incseq [OF assms], of "ln_Gamma_seq x 1 + x * (x + 1)"]
      ln_Gamma_seq_bounded [OF assms] by blast
  then have "ln_Gamma_seq x \<longlonglongrightarrow> L" by (rule LIMSEQ_imp_Suc)
  then show ?thesis unfolding ln_Gamma_def by (simp add: limI)
qed


lemma ln_Gamma_seq_shift:
  assumes "0 < x" "0 < n"
  shows "ln_Gamma_seq (x + 1) n = ln_Gamma_seq x n + ln x - ln (1 + (x + 1) / real n)"
proof -
  have "(\<Sum>k\<le>Suc n. ln \<bar>x + real k\<bar>) = ln \<bar>x + real 0\<bar> + (\<Sum>k\<le>n. ln \<bar>x + real (Suc k)\<bar>)"
    by (rule sum.atMost_Suc_shift)
  then have s: "(\<Sum>k\<le>n. ln \<bar>x + 1 + real k\<bar>) = (\<Sum>k\<le>n. ln \<bar>x + real k\<bar>) + ln (x + real n + 1) - ln x"
    using assms by (simp add: add.commute add.left_commute)
  have "1 + (x + 1) / real n = (x + real n + 1) / real n"
    using assms by (simp add: field_simps)
  then have l: "ln (1 + (x + 1) / real n) = ln (x + real n + 1) - ln (real n)"
    using assms by (simp add: ln_div)
  show ?thesis
    unfolding ln_Gamma_seq_def s l by (simp add: algebra_simps)
qed

lemma ln_one_plus_over_n_tendsto: "(\<lambda>n. ln (1 + c / real n)) \<longlonglongrightarrow> 0"
proof -
  have "(\<lambda>n. 1 + c / real n) \<longlonglongrightarrow> 1 + 0"
    by (intro tendsto_add tendsto_const lim_const_over_n)
  then have "(\<lambda>n. ln (1 + c / real n)) \<longlonglongrightarrow> ln 1"
    by (intro tendsto_ln) simp_all
  then show ?thesis by simp
qed

lemma ln_Gamma_plus_one:
  assumes "0 < x"
  shows "ln_Gamma (x + 1) = ln_Gamma x + ln x"
proof -
  have "(\<lambda>n. ln_Gamma_seq x n + ln x - ln (1 + (x + 1) / real n)) \<longlonglongrightarrow> ln_Gamma x + ln x - 0"
    by (intro tendsto_diff tendsto_add tendsto_const ln_Gamma_seq_tendsto assms
        ln_one_plus_over_n_tendsto)
  moreover have "eventually (\<lambda>n. ln_Gamma_seq x n + ln x - ln (1 + (x + 1) / real n) = ln_Gamma_seq (x + 1) n) sequentially"
    using eventually_gt_at_top [of "0::nat"]
    by eventually_elim (simp add: ln_Gamma_seq_shift assms)
  ultimately have "ln_Gamma_seq (x + 1) \<longlonglongrightarrow> ln_Gamma x + ln x - 0"
    by (rule Lim_transform_eventually)
  moreover have "ln_Gamma_seq (x + 1) \<longlonglongrightarrow> ln_Gamma (x + 1)"
    using assms by (intro ln_Gamma_seq_tendsto) simp
  ultimately show ?thesis
    using LIMSEQ_unique by fastforce
qed

lemma ln_fact_Suc: "ln (fact (Suc n) :: real) = ln (real n + 1) + ln (fact n)"
  by (simp add: ln_mult add.commute)

lemma sum_ln_fact: "(\<Sum>k\<le>n. ln \<bar>1 + real k\<bar>) = ln (fact (Suc n))"
proof (induction n)
  case 0
  show ?case by simp
next
  case (Suc n)
  have "(\<Sum>k\<le>Suc n. ln \<bar>1 + real k\<bar>) = ln (real (Suc n) + 1) + (\<Sum>k\<le>n. ln \<bar>1 + real k\<bar>)"
    by (simp add: add.commute)
  also have "\<dots> = ln (real (Suc n) + 1) + ln (fact (Suc n))"
    by (simp only: Suc.IH)
  also have "\<dots> = ln (fact (Suc (Suc n)))"
    by (rule ln_fact_Suc [symmetric])
  finally show ?case .
qed

lemma ln_Gamma_one: "ln_Gamma 1 = 0"
proof -
  have eq: "ln_Gamma_seq 1 n = - ln (1 + 1 / real n)" if "0 < n" for n
  proof -
    have "1 + 1 / real n = (real n + 1) / real n" using that by (simp add: field_simps)
    then have "ln (1 + 1 / real n) = ln (real n + 1) - ln (real n)"
      using that by (simp add: ln_div)
    then show ?thesis
      unfolding ln_Gamma_seq_def sum_ln_fact by (simp add: ln_mult add.commute)
  qed
  have "(\<lambda>n. - ln (1 + 1 / real n)) \<longlonglongrightarrow> - 0"
    by (intro tendsto_minus ln_one_plus_over_n_tendsto)
  moreover have "eventually (\<lambda>n. - ln (1 + 1 / real n) = ln_Gamma_seq 1 n) sequentially"
    using eventually_gt_at_top [of "0::nat"]
    by eventually_elim (simp add: eq)
  ultimately have "ln_Gamma_seq 1 \<longlonglongrightarrow> - 0"
    by (rule Lim_transform_eventually)
  then show ?thesis unfolding ln_Gamma_def by (simp add: limI)
qed



lemma ln_Gamma_plus_nat:
  assumes "0 < x"
  shows "ln_Gamma (x + real n) = ln_Gamma x + (\<Sum>i<n. ln (x + real i))"
proof (induction n)
  case 0
  show ?case by simp
next
  case (Suc n)
  have "x + real (Suc n) = (x + real n) + 1" by simp
  then have "ln_Gamma (x + real (Suc n)) = ln_Gamma ((x + real n) + 1)"
    by (rule arg_cong)
  also have "\<dots> = ln_Gamma (x + real n) + ln (x + real n)"
    using assms by (intro ln_Gamma_plus_one) (simp add: add_pos_nonneg)
  finally show ?case using Suc.IH by simp
qed

subsection \<open>The dose-response function\<close>




lemma clamp_unit_nan_iff: "clamp_unit p = NaN \<longleftrightarrow> p = NaN"
  by (cases p) (auto simp: clamp_unit_def)



text \<open>
  On a whole number of organisms the closed form is the product of the per-organism
  survival ratios \<open>(\<beta> + i) / (\<alpha> + \<beta> + i)\<close>: this evaluates the function on concrete doses.
\<close>

lemma exp_sum_ln_ratio:
  assumes "0 < b" "0 \<le> a"
  shows "exp ((\<Sum>i<n. ln (b + real i)) - (\<Sum>i<n. ln (a + b + real i))) =
    (\<Prod>i<n. (b + real i) / (a + b + real i))"
proof (induction n)
  case 0
  show ?case by simp
next
  case (Suc n)
  have p: "0 < b + real n" "0 < a + b + real n" using assms by (auto intro: add_pos_nonneg)
  have "exp ((\<Sum>i<Suc n. ln (b + real i)) - (\<Sum>i<Suc n. ln (a + b + real i)))
      = exp ((\<Sum>i<n. ln (b + real i)) - (\<Sum>i<n. ln (a + b + real i))) * exp (ln (b + real n) - ln (a + b + real n))"
    by (simp add: exp_add [symmetric] algebra_simps)
  also have "exp (ln (b + real n) - ln (a + b + real n)) = (b + real n) / (a + b + real n)"
    using p by (simp add: exp_diff)
  finally show ?case using Suc.IH by simp
qed

lemma survival_product_range:
  assumes "0 < b" "0 \<le> a"
  shows "0 < (\<Prod>i<n. (b + real i) / (a + b + real i)) \<and> (\<Prod>i<n. (b + real i) / (a + b + real i)) \<le> 1"
proof -
  have "0 < (b + real i) / (a + b + real i)" for i
  proof -
    have "0 < b + real i" "0 < a + b + real i" using assms by auto
    then show ?thesis by (rule divide_pos_pos)
  qed
  moreover have "(b + real i) / (a + b + real i) \<le> 1" for i
  proof -
    have "0 < a + b + real i" using assms by auto
    then show ?thesis using assms by simp
  qed
  ultimately show ?thesis
    by (intro conjI prod_pos prod_le_1) (auto intro: less_imp_le)
qed

lemma beta_binomial_nat_dose:
  assumes "0 < beta" "0 \<le> alpha"
  shows "beta_binomial_infection_prob [Finite (real n)] alpha beta =
    [Finite (1 - (\<Prod>i<n. (beta + real i) / (alpha + beta + real i)))]"
proof -
  have ab: "0 < alpha + beta" using assms by simp
  have "ln_Gamma (beta + real n) + ln_Gamma (alpha + beta) - ln_Gamma (alpha + beta + real n) - ln_Gamma beta
      = (\<Sum>i<n. ln (beta + real i)) - (\<Sum>i<n. ln (alpha + beta + real i))"
    using ln_Gamma_plus_nat [OF assms(1), of n] ln_Gamma_plus_nat [OF ab, of n] by simp
  then have e: "exp (ln_Gamma (beta + real n) + ln_Gamma (alpha + beta) - ln_Gamma (alpha + beta + real n) - ln_Gamma beta)
      = (\<Prod>i<n. (beta + real i) / (alpha + beta + real i))"
    using exp_sum_ln_ratio [OF assms, of n] by simp
  have "log_prob_complement alpha beta (Finite (real n)) =
      Finite (ln_Gamma (beta + real n) + ln_Gamma (alpha + beta) - ln_Gamma (alpha + beta + real n) - ln_Gamma beta)"
    using assms ab by (simp add: log_prob_complement_def f_sub_def add_pos_nonneg)
  then show ?thesis
    using e survival_product_range [OF assms, of n]
    by (simp add: beta_binomial_infection_prob_def clamp_unit_def f_sub_def)
qed

lemma beta_binomial_dose_one: "beta_binomial_infection_prob [Finite 1] ALPHA BETA = [Finite (8 / 19)]"
  using beta_binomial_nat_dose [of BETA ALPHA 1]
  by (simp add: ALPHA_def BETA_def)

lemma beta_binomial_dose_two: "beta_binomial_infection_prob [Finite 2] ALPHA BETA = [Finite (1840 / 4161)]"
  using beta_binomial_nat_dose [of BETA ALPHA 2]
  by (simp add: ALPHA_def BETA_def lessThan_nat_numeral lessThan_Suc)

lemma beta_binomial_Cons:
  "beta_binomial_infection_prob (d # e # ds) alpha beta =
     beta_binomial_infection_prob [d] alpha beta @ beta_binomial_infection_prob (e # ds) alpha beta"
  by (simp add: beta_binomial_infection_prob_def)






text \<open>
  Claim C10. For a dose of exactly 0 the four log-gamma terms cancel, the complement is
  \<open>exp 0\<close>, and the function returns exactly 0.
\<close>

theorem beta_binomial_infection_prob_zero_dose:
  "beta_binomial_infection_prob [Finite 0] ALPHA BETA = [Finite 0]"
  by (simp add: beta_binomial_infection_prob_def log_prob_complement_def clamp_unit_def
      f_sub_def ALPHA_def BETA_def)

subsection \<open>Vectorised draws and the test generator\<close>

lemma draw_many_length: "draw_many g n s = (xs, s1) \<Longrightarrow> length xs = n"
  by (induction n arbitrary: s xs s1) (auto split: prod.splits)

lemma draw_each_length: "draw_each g ps s = (xs, s1) \<Longrightarrow> length xs = length ps"
  by (induction ps arbitrary: s xs s1) (auto split: prod.splits)

lemma test_generator_simps:
  "gen_random test_generator s = (7 / 10, Suc s)"
  "gen_bernoulli test_generator p s = ((if s mod 3 = 0 then 1 / 10 else 9 / 10) < p, Suc s)"
  "gen_randint test_generator n s = (0, Suc s)"
  "gen_normal test_generator mean std s = (mean, Suc s)"
  "gen_triangular test_generator left mid right s = (mid, Suc s)"
  "gen_fisk test_generator c loc scale s = (loc + scale, Suc s)"
  by (simp_all add: test_generator_def)

subsection \<open>The dose discretizer\<close>

lemma floor_astype_int_in_range:
  "0 \<le> d \<Longrightarrow> d < 2 ^ 63 \<Longrightarrow> floor_astype_int (Finite d) = \<lfloor>d\<rfloor>"
proof -
  assume a: "0 \<le> d" "d < 2 ^ 63"
  have "0 \<le> \<lfloor>d\<rfloor>" using a by simp
  moreover have "\<lfloor>d\<rfloor> < 2 ^ 63" using a by (simp add: floor_less_iff)
  ultimately show ?thesis by simp
qed

lemma fractional_part_probability:
  assumes "list_all (\<lambda>d. 0 \<le> d \<and> d < 2 ^ 63) ds"
  shows "list_all is_probability (map2 (\<lambda>d i. f_sub d (Finite (of_int i))) (map Finite ds) (map floor_astype_int (map Finite ds)))"
proof -
  have "map2 (\<lambda>d i. f_sub d (Finite (of_int i))) (map Finite ds) (map floor_astype_int (map Finite ds))
      = map (\<lambda>d. Finite (d - of_int \<lfloor>d\<rfloor>)) ds"
    using assms by (induction ds) (simp_all add: f_sub_def floor_astype_int_in_range del: floor_astype_int.simps)
  moreover have "list_all is_probability (map (\<lambda>d. Finite (d - of_int \<lfloor>d\<rfloor>)) ds)"
    by (induction ds) (simp_all, linarith)
  ultimately show ?thesis by simp
qed

lemma fractional_part_eq:
  assumes "list_all (\<lambda>d. 0 \<le> d \<and> d < 2 ^ 63) ds"
  shows "map the_finite (map2 (\<lambda>d i. f_sub d (Finite (of_int i))) (map Finite ds) (map floor_astype_int (map Finite ds)))
     = map (\<lambda>d. d - of_int \<lfloor>d\<rfloor>) ds"
  using assms by (induction ds) (simp_all add: f_sub_def floor_astype_int_in_range del: floor_astype_int.simps)

lemma discretize_dose_finite:
  assumes "list_all (\<lambda>d. 0 \<le> d \<and> d < 2 ^ 63) ds"
    and "draw_each (gen_bernoulli L) (map (\<lambda>d. d - of_int \<lfloor>d\<rfloor>) ds) s = (bs, s1)"
  shows "discretize_dose L (map Finite ds) s =
    (Inr (map2 (\<lambda>d b. \<lfloor>d\<rfloor> + (if b then 1 else 0)) ds bs), s1)"
proof -
  have len: "length bs = length ds" using draw_each_length [OF assms(2)] by simp
  have "length ds = length bs \<Longrightarrow> list_all (\<lambda>d. 0 \<le> d \<and> d < 2 ^ 63) ds \<Longrightarrow>
      map2 (\<lambda>i b. i + int b) (map floor_astype_int (map Finite ds)) (map of_bool bs)
      = map2 (\<lambda>d b. \<lfloor>d\<rfloor> + (if b then 1 else 0)) ds bs"
    by (induction ds bs rule: list_induct2)
       (simp_all add: floor_astype_int_in_range del: floor_astype_int.simps)
  with len assms(1)
  have "map2 (\<lambda>i b. i + int b) (map floor_astype_int (map Finite ds)) (map of_bool bs)
      = map2 (\<lambda>d b. \<lfloor>d\<rfloor> + (if b then 1 else 0)) ds bs"
    by simp
  then show ?thesis
    using assms(2) fractional_part_probability [OF assms(1)] fractional_part_eq [OF assms(1)]
    by (simp add: discretize_dose_def np_random_binomial_def Let_def)
qed

text \<open>
  Claim C4, as amended. For doses \<open>0 \<le> d < 2\<^sup>6\<^sup>3\<close>, \<open>discretize_dose\<close> draws one Bernoulli trial
  per dose, with the fractional part \<open>d - floor d\<close> as success probability, and returns
  \<open>floor d\<close> plus the outcome: \<open>floor d\<close> or \<open>floor d + 1\<close>, never negative. The mean of the
  output under the law of the trial is \<open>d\<close> exactly.
\<close>

theorem discretize_dose_spec:
  assumes "list_all (\<lambda>d. 0 \<le> d \<and> d < 2 ^ 63) ds"
  shows "\<exists>bs s1. draw_each (gen_bernoulli L) (map (\<lambda>d. d - of_int \<lfloor>d\<rfloor>) ds) s = (bs, s1) \<and>
    length bs = length ds \<and>
    discretize_dose L (map Finite ds) s =
      (Inr (map2 (\<lambda>d b. \<lfloor>d\<rfloor> + (if b then 1 else 0)) ds bs), s1) \<and>
    list_all (\<lambda>z. 0 \<le> z) (map2 (\<lambda>d b. \<lfloor>d\<rfloor> + (if b then 1 else 0)) ds bs) \<and>
    list_all (\<lambda>d. 0 \<le> d - of_int \<lfloor>d\<rfloor> \<and> d - of_int \<lfloor>d\<rfloor> < 1 \<and>
      bernoulli_mean (d - of_int \<lfloor>d\<rfloor>) (\<lambda>b. of_int (\<lfloor>d\<rfloor> + (if b then 1 else 0))) = d) ds"
proof -
  obtain bs s1 where d: "draw_each (gen_bernoulli L) (map (\<lambda>d. d - of_int \<lfloor>d\<rfloor>) ds) s = (bs, s1)"
    by (cases "draw_each (gen_bernoulli L) (map (\<lambda>d. d - of_int \<lfloor>d\<rfloor>) ds) s")
  have len: "length bs = length ds" using draw_each_length [OF d] by simp
  have "length ds = length bs \<Longrightarrow> list_all (\<lambda>d. 0 \<le> d \<and> d < 2 ^ 63) ds \<Longrightarrow>
      list_all (\<lambda>z. 0 \<le> z) (map2 (\<lambda>d b. \<lfloor>d\<rfloor> + (if b then 1 else 0)) ds bs)"
    by (induction ds bs rule: list_induct2) auto
  with len assms
  have nonneg: "list_all (\<lambda>z. 0 \<le> z) (map2 (\<lambda>d b. \<lfloor>d\<rfloor> + (if b then 1 else 0)) ds bs)"
    by simp
  have mean: "bernoulli_mean (d - of_int \<lfloor>d\<rfloor>) (\<lambda>b. of_int (\<lfloor>d\<rfloor> + (if b then 1 else 0))) = d" for d :: real
    by (simp add: bernoulli_mean_def algebra_simps)
  have frac: "0 \<le> d - of_int \<lfloor>d\<rfloor> \<and> d - of_int \<lfloor>d\<rfloor> < 1" for d :: real
    by linarith
  have "list_all (\<lambda>d. 0 \<le> d - of_int \<lfloor>d\<rfloor> \<and> d - of_int \<lfloor>d\<rfloor> < 1 \<and>
      bernoulli_mean (d - of_int \<lfloor>d\<rfloor>) (\<lambda>b. of_int (\<lfloor>d\<rfloor> + (if b then 1 else 0))) = d) ds"
    using mean frac by (simp add: list_all_iff)
  with d len nonneg discretize_dose_finite [OF assms d] show ?thesis by blast
qed

theorem discretize_dose_spec_witness:
  "list_all (\<lambda>d. 0 \<le> d \<and> d < 2 ^ 63) [6 / 5, 0, 7 / 2 :: real] \<and>
   discretize_dose test_generator (map Finite [6 / 5, 0, 7 / 2]) 5 = (Inr [1, 0, 3], 8) \<and>
   discretize_dose test_generator (map Finite [6 / 5, 0, 7 / 2]) 6 = (Inr [2, 0, 3], 9) \<and>
   bernoulli_mean (1 / 5) (\<lambda>b. of_int (1 + (if b then 1 else 0))) = 6 / 5"
proof -
  have h: "list_all (\<lambda>d. 0 \<le> d \<and> d < 2 ^ 63) [6 / 5, 0, 7 / 2 :: real]" by simp
  have "discretize_dose test_generator (map Finite [6 / 5, 0, 7 / 2]) 5 = (Inr [1, 0, 3], 8)"
    using discretize_dose_spec [OF h, of test_generator 5]
    by (auto simp: test_generator_simps)
  moreover have "discretize_dose test_generator (map Finite [6 / 5, 0, 7 / 2]) 6 = (Inr [2, 0, 3], 9)"
    using discretize_dose_spec [OF h, of test_generator 6]
    by (auto simp: test_generator_simps)
  moreover have "bernoulli_mean (1 / 5) (\<lambda>b. of_int (1 + (if b then 1 else 0))) = 6 / 5"
    using discretize_dose_spec [OF h, of test_generator 5]
    by (auto simp: test_generator_simps)
  ultimately show ?thesis using h by blast
qed

text \<open>
  The claim as it was stated fails from \<open>2\<^sup>6\<^sup>3\<close> on: the floor of the dose \<open>10\<^sup>1\<^sup>9\<close> does not
  fit the 64-bit integer of the cast, the fractional part is then above 1 and the Bernoulli
  draw raises \<open>ValueError\<close>, so no integer is returned.
\<close>

theorem discretize_dose_int64_overflow:
  "0 \<le> (10 ^ 19 :: real) \<and>
   floor_astype_int (Finite (10 ^ 19)) = - (2 ^ 63) \<and>
   discretize_dose test_generator [Finite (10 ^ 19)] 0 =
     (Inl (ValueError ''p < 0, p > 1 or p contains NaNs''), 0)"
  by (simp add: discretize_dose_def np_random_binomial_def f_sub_def)

subsection \<open>The hockey-stick sampler\<close>



subsection \<open>The empirical resampler\<close>

lemma draw_many_randint_bound:
  assumes "randint_in_range L" "0 < k"
    and "draw_many (gen_randint L k) n s = (idx, s1)"
  shows "\<forall>i \<in> set idx. i < k"
  using assms(3)
proof (induction n arbitrary: s idx s1)
  case 0
  then show ?case by simp
next
  case (Suc n)
  obtain x s2 where g: "gen_randint L k s = (x, s2)" by (cases "gen_randint L k s")
  obtain xs s3 where d: "draw_many (gen_randint L k) n s2 = (xs, s3)"
    by (cases "draw_many (gen_randint L k) n s2")
  from Suc.prems g d have idx: "idx = x # xs" by simp
  have "x < k" using assms(1,2) g by (metis fst_conv randint_in_range_def)
  moreover have "\<forall>i \<in> set xs. i < k" using Suc.IH [OF d] .
  ultimately show ?case using idx by simp
qed

lemma randint_in_range_test: "randint_in_range test_generator"
  by (simp add: randint_in_range_def test_generator_simps)

text \<open>
  Claim C6. \<open>sample_ecdf\<close> raises its validation error, \<open>ValueError\<close> with the message
  "No valid dilution data provided", if and only if no observation is left once the NaN
  entries are discarded. Otherwise, for a count \<open>n \<ge> 0\<close> and a generator that draws positions
  inside the array, it returns exactly \<open>n\<close> values, each a member of the cleaned observations.
\<close>

theorem sample_ecdf_spec:
  "(fst (sample_ecdf L observations n s) = Inl (ValueError ''No valid dilution data provided'')
      \<longleftrightarrow> filter (\<lambda>x. \<not> isnan x) observations = []) \<and>
   (filter (\<lambda>x. \<not> isnan x) observations \<noteq> [] \<and> 0 \<le> n \<and>
    randint_in_range L \<longrightarrow>
      (\<exists>xs s1. sample_ecdf L observations n s = (Inr xs, s1) \<and> length xs = nat n \<and>
         set xs \<subseteq> set (filter (\<lambda>x. \<not> isnan x) observations)))"
proof (intro conjI impI)
  show "fst (sample_ecdf L observations n s) = Inl (ValueError ''No valid dilution data provided'')
      \<longleftrightarrow> filter (\<lambda>x. \<not> isnan x) observations = []"
    by (auto simp: sample_ecdf_def np_random_choice_def Let_def split: prod.splits)
next
  let ?c = "filter (\<lambda>x. \<not> isnan x) observations"
  assume h: "?c \<noteq> [] \<and> 0 \<le> n \<and> randint_in_range L"
  obtain idx s1 where d: "draw_many (gen_randint L (length ?c)) (nat n) s = (idx, s1)"
    by (cases "draw_many (gen_randint L (length ?c)) (nat n) s")
  have b: "\<forall>i \<in> set idx. i < length ?c"
    using draw_many_randint_bound [OF _ _ d] h by simp
  have "sample_ecdf L observations n s = (Inr (map (\<lambda>i. ?c ! i) idx), s1)"
    using h d by (simp add: sample_ecdf_def np_random_choice_def Let_def)
  moreover have "length (map (\<lambda>i. ?c ! i) idx) = nat n"
    using draw_many_length [OF d] by simp
  moreover have "set (map (\<lambda>i. ?c ! i) idx) \<subseteq> set ?c"
  proof
    fix y assume "y \<in> set (map (\<lambda>i. ?c ! i) idx)"
    then obtain i where "i \<in> set idx" "y = ?c ! i" by auto
    with b show "y \<in> set ?c" using nth_mem by blast
  qed
  ultimately show "\<exists>xs s1. sample_ecdf L observations n s = (Inr xs, s1) \<and> length xs = nat n \<and>
         set xs \<subseteq> set ?c"
    by blast
qed

theorem sample_ecdf_spec_witness:
  "filter (\<lambda>x. \<not> isnan x) [NaN, Finite 2, Finite 3] \<noteq> [] \<and> (0::int) \<le> 3 \<and>
   randint_in_range test_generator \<and>
   (\<exists>xs s1. sample_ecdf test_generator [NaN, Finite 2, Finite 3] 3 0 = (Inr xs, s1) \<and>
      length xs = nat 3 \<and> set xs \<subseteq> set (filter (\<lambda>x. \<not> isnan x) [NaN, Finite 2, Finite 3])) \<and>
   fst (sample_ecdf test_generator [NaN, NaN] 3 0) =
     Inl (ValueError ''No valid dilution data provided'')"
proof -
  have "\<exists>xs s1. sample_ecdf test_generator [NaN, Finite 2, Finite 3] 3 0 = (Inr xs, s1) \<and>
      length xs = nat 3 \<and> set xs \<subseteq> set (filter (\<lambda>x. \<not> isnan x) [NaN, Finite 2, Finite 3])"
    using sample_ecdf_spec [of test_generator "[NaN, Finite 2, Finite 3]" 3 0] randint_in_range_test
    by simp
  moreover have "fst (sample_ecdf test_generator [NaN, NaN] 3 0) =
     Inl (ValueError ''No valid dilution data provided'')"
    using sample_ecdf_spec [of test_generator "[NaN, NaN]" 3 0] by simp
  ultimately show ?thesis using randint_in_range_test by simp
qed

subsection \<open>The meal-size sampler\<close>

lemma meal_size_loop_returns:
  assumes "draw_many (gen_fisk L MEAL_SIZE_A MEAL_SIZE_G MEAL_SIZE_B) m s = (xs, s1)"
    and "nat n - length samples \<le> length (filter meal_size_accepted xs)"
  shows "\<exists>s2. meal_size_loop L n samples s =
    Some (samples @ take (nat n - length samples) (filter meal_size_accepted xs), s2)"
  using assms
proof (induction m arbitrary: s xs samples s1)
  case 0
  then have "xs = []" by simp
  with 0 have "\<not> int (length samples) < n" by simp
  then show ?case using \<open>xs = []\<close>
    by (subst meal_size_loop.simps) simp
next
  case (Suc m)
  obtain x s' where g: "gen_fisk L MEAL_SIZE_A MEAL_SIZE_G MEAL_SIZE_B s = (x, s')"
    by (cases "gen_fisk L MEAL_SIZE_A MEAL_SIZE_G MEAL_SIZE_B s")
  obtain xs' s'' where d: "draw_many (gen_fisk L MEAL_SIZE_A MEAL_SIZE_G MEAL_SIZE_B) m s' = (xs', s'')"
    by (cases "draw_many (gen_fisk L MEAL_SIZE_A MEAL_SIZE_G MEAL_SIZE_B) m s'")
  from Suc.prems(1) g d have xs: "xs = x # xs'" by simp
  show ?case
  proof (cases "int (length samples) < n")
    case False
    then have "nat n - length samples = 0" by simp
    with False show ?thesis by (subst meal_size_loop.simps) simp
  next
    case True
    then have k: "nat n - length samples = Suc (nat n - length (samples @ [x]))" by simp
    show ?thesis
    proof (cases "meal_size_accepted x")
      case acc: True
      have "nat n - length (samples @ [x]) \<le> length (filter meal_size_accepted xs')"
        using Suc.prems(2) xs acc k by simp
      from Suc.IH [OF d this] obtain s2 where
        "meal_size_loop L n (samples @ [x]) s' =
           Some ((samples @ [x]) @ take (nat n - length (samples @ [x])) (filter meal_size_accepted xs'), s2)"
        by blast
      moreover have "meal_size_loop L n samples s = meal_size_loop L n (samples @ [x]) s'"
        using True g acc by (subst meal_size_loop.simps) (simp add: meal_size_accepted_def)
      moreover have "samples @ take (nat n - length samples) (filter meal_size_accepted xs)
          = (samples @ [x]) @ take (nat n - length (samples @ [x])) (filter meal_size_accepted xs')"
        using xs acc k by simp
      ultimately show ?thesis by simp
    next
      case rej: False
      have "nat n - length samples \<le> length (filter meal_size_accepted xs')"
        using Suc.prems(2) xs rej by simp
      from Suc.IH [OF d this] obtain s2 where
        "meal_size_loop L n samples s' =
           Some (samples @ take (nat n - length samples) (filter meal_size_accepted xs'), s2)"
        by blast
      moreover have "meal_size_loop L n samples s = meal_size_loop L n samples s'"
        using True g rej by (subst meal_size_loop.simps) (auto simp: meal_size_accepted_def)
      moreover have "filter meal_size_accepted xs = filter meal_size_accepted xs'"
        using xs rej by simp
      ultimately show ?thesis by simp
    qed
  qed
qed

lemma meal_size_loop_partial:
  assumes "meal_size_loop L n samples s = Some r"
    and "list_all meal_size_accepted samples" "int (length samples) \<le> max n 0"
  shows "list_all meal_size_accepted (fst r) \<and> int (length (fst r)) = max n 0"
proof -
  let ?P = "\<lambda>(L :: 's np_random) (n :: int) (samples :: real list) (s :: 's) (r :: real list \<times> 's).
    list_all meal_size_accepted samples \<longrightarrow> int (length samples) \<le> max n 0 \<longrightarrow>
      list_all meal_size_accepted (fst r) \<and> int (length (fst r)) = max n 0"
  have "?P L n samples s r"
  proof (rule meal_size_loop.raw_induct [where P = ?P])
    show "meal_size_loop L n samples s = Some r" by fact
  next
    fix loop :: "'s np_random \<Rightarrow> int \<Rightarrow> real list \<Rightarrow> 's \<Rightarrow> (real list \<times> 's) option"
    fix L n samples s r
    assume IH: "\<And>L n samples s r. loop L n samples s = Some r \<Longrightarrow> ?P L n samples s r"
    assume eq: "(if int (length samples) < n
      then case gen_fisk L MEAL_SIZE_A MEAL_SIZE_G MEAL_SIZE_B s of
           (sample, s1) \<Rightarrow>
             if MEAL_SIZE_MIN \<le> sample \<and> sample \<le> MEAL_SIZE_MAX
             then loop L n (samples @ [sample]) s1
             else loop L n samples s1
      else Some (samples, s)) = Some r"
    show "?P L n samples s r"
    proof (intro impI)
      assume inv: "list_all meal_size_accepted samples" "int (length samples) \<le> max n 0"
      show "list_all meal_size_accepted (fst r) \<and> int (length (fst r)) = max n 0"
      proof (cases "int (length samples) < n")
        case False
        with eq inv show ?thesis by auto
      next
        case True
        obtain x s' where g: "gen_fisk L MEAL_SIZE_A MEAL_SIZE_G MEAL_SIZE_B s = (x, s')"
          by (cases "gen_fisk L MEAL_SIZE_A MEAL_SIZE_G MEAL_SIZE_B s")
        show ?thesis
        proof (cases "meal_size_accepted x")
          case acc: True
          from eq True g acc have "loop L n (samples @ [x]) s' = Some r"
            by (simp add: meal_size_accepted_def)
          moreover have "list_all meal_size_accepted (samples @ [x])" using inv acc by simp
          moreover have "int (length (samples @ [x])) \<le> max n 0" using True by simp
          ultimately show ?thesis using IH by blast
        next
          case rej: False
          from eq True g rej have "loop L n samples s' = Some r"
            by (auto simp: meal_size_accepted_def)
          then show ?thesis using inv IH by blast
        qed
      qed
    qed
  qed
  with assms show ?thesis by blast
qed

lemma draw_many_add:
  "draw_many g (m + k) s =
     (case draw_many g m s of (xs, s1) \<Rightarrow>
        (case draw_many g k s1 of (ys, s2) \<Rightarrow> (xs @ ys, s2)))"
  by (induction m arbitrary: s) (simp_all split: prod.splits)

lemma fisk_accepts_many:
  assumes "fisk_accepts_eventually L"
  shows "\<exists>m. k \<le> length (filter meal_size_accepted
      (fst (draw_many (gen_fisk L MEAL_SIZE_A MEAL_SIZE_G MEAL_SIZE_B) m s)))"
proof (induction k)
  case 0
  show ?case by simp
next
  case (Suc k)
  let ?g = "gen_fisk L MEAL_SIZE_A MEAL_SIZE_G MEAL_SIZE_B"
  from Suc obtain m where m: "k \<le> length (filter meal_size_accepted (fst (draw_many ?g m s)))"
    by blast
  obtain xs s1 where d1: "draw_many ?g m s = (xs, s1)" by (cases "draw_many ?g m s")
  from assms obtain j where j: "list_ex meal_size_accepted (fst (draw_many ?g j s1))"
    unfolding fisk_accepts_eventually_def by blast
  obtain ys s2 where d2: "draw_many ?g j s1 = (ys, s2)" by (cases "draw_many ?g j s1")
  from j d2 have "filter meal_size_accepted ys \<noteq> []"
    by (simp add: list_ex_iff filter_empty_conv)
  then have "1 \<le> length (filter meal_size_accepted ys)"
    by (cases "filter meal_size_accepted ys") simp_all
  moreover have "draw_many ?g (m + j) s = (xs @ ys, s2)"
    using d1 d2 by (simp add: draw_many_add)
  ultimately have "Suc k \<le> length (filter meal_size_accepted (fst (draw_many ?g (m + j) s)))"
    using m d1 by simp
  then show ?case by blast
qed

text \<open>
  Claim C7. For every requested count \<open>n \<ge> 0\<close> the sampler returns exactly \<open>n\<close> samples, each
  between 5.0 and 800.0, on every generator whose log-logistic routine does not reject for
  ever. The loop has no cap on attempts; whenever it returns, the result has exactly \<open>n\<close>
  samples (none for a negative count), all inside the bounds; and once \<open>n\<close> of the first \<open>m\<close>
  variates are inside the bounds, the result is the first \<open>n\<close> of them.
\<close>

theorem sample_meal_size_loglogistic_spec:
  "(fisk_accepts_eventually L \<and> 0 \<le> n \<longrightarrow>
      (\<exists>ys s3. sample_meal_size_loglogistic L n s = Some (ys, s3) \<and>
         int (length ys) = n \<and> list_all (\<lambda>x. 5 \<le> x \<and> x \<le> 800) ys)) \<and>
   (sample_meal_size_loglogistic L n s = Some (ys, s2) \<longrightarrow>
      int (length ys) = max n 0 \<and> list_all meal_size_accepted ys) \<and>
   (draw_many (gen_fisk L MEAL_SIZE_A MEAL_SIZE_G MEAL_SIZE_B) m s = (xs, s1) \<and>
    nat n \<le> length (filter meal_size_accepted xs) \<longrightarrow>
      (\<exists>s3. sample_meal_size_loglogistic L n s =
         Some (take (nat n) (filter meal_size_accepted xs), s3)))"
proof -
  have partial: "int (length ys) = max n 0 \<and> list_all meal_size_accepted ys"
    if a: "sample_meal_size_loglogistic L n s = Some (ys, s2)" for ys s2
  proof -
    from a obtain zs where l: "meal_size_loop L n [] s = Some (zs, s2)" and ys: "ys = py_slice_to n zs"
      by (auto simp: sample_meal_size_loglogistic_def split: option.splits)
    from meal_size_loop_partial [OF l] have z: "list_all meal_size_accepted zs" "int (length zs) = max n 0"
      by simp_all
    then have "py_slice_to n zs = zs"
      by (auto simp: py_slice_to_def max_def split: if_splits)
    with z ys show ?thesis by simp
  qed
  have returns: "\<exists>s3. sample_meal_size_loglogistic L n s =
         Some (take (nat n) (filter meal_size_accepted xs), s3)"
    if a: "draw_many (gen_fisk L MEAL_SIZE_A MEAL_SIZE_G MEAL_SIZE_B) m s = (xs, s1)"
      and b: "nat n \<le> length (filter meal_size_accepted xs)" for m xs s1
  proof -
    from b have "nat n - length ([] :: real list) \<le> length (filter meal_size_accepted xs)" by simp
    from meal_size_loop_returns [OF a this] obtain s3 where
      l: "meal_size_loop L n [] s = Some (take (nat n) (filter meal_size_accepted xs), s3)"
      by auto
    have "py_slice_to n (take (nat n) (filter meal_size_accepted xs)) = take (nat n) (filter meal_size_accepted xs)"
      by (simp add: py_slice_to_def)
    with l show ?thesis by (simp add: sample_meal_size_loglogistic_def)
  qed
  have total: "\<exists>ys s3. sample_meal_size_loglogistic L n s = Some (ys, s3) \<and>
         int (length ys) = n \<and> list_all (\<lambda>x. 5 \<le> x \<and> x \<le> 800) ys"
    if c: "fisk_accepts_eventually L" and n: "0 \<le> n"
  proof -
    let ?g = "gen_fisk L MEAL_SIZE_A MEAL_SIZE_G MEAL_SIZE_B"
    from fisk_accepts_many [OF c, of "nat n" s] obtain m where
      m: "nat n \<le> length (filter meal_size_accepted (fst (draw_many ?g m s)))" by blast
    obtain xs s1 where d: "draw_many ?g m s = (xs, s1)" by (cases "draw_many ?g m s")
    from returns [OF d] m d obtain s3 where
      r: "sample_meal_size_loglogistic L n s = Some (take (nat n) (filter meal_size_accepted xs), s3)"
      by auto
    from partial [OF r] n
    have "int (length (take (nat n) (filter meal_size_accepted xs))) = n"
      "list_all meal_size_accepted (take (nat n) (filter meal_size_accepted xs))"
      by simp_all
    moreover have "meal_size_accepted = (\<lambda>x. 5 \<le> x \<and> x \<le> 800)"
      by (rule ext) (simp add: meal_size_accepted_def MEAL_SIZE_MIN_def MEAL_SIZE_MAX_def)
    ultimately show ?thesis using r by auto
  qed
  show ?thesis using partial returns total by blast
qed

lemma fisk_accepts_eventually_test: "fisk_accepts_eventually test_generator"
proof -
  have "list_ex meal_size_accepted
      (fst (draw_many (gen_fisk test_generator MEAL_SIZE_A MEAL_SIZE_G MEAL_SIZE_B) (Suc 0) s))" for s
    by (simp add: test_generator_simps meal_size_accepted_def MEAL_SIZE_A_def MEAL_SIZE_G_def
        MEAL_SIZE_B_def MEAL_SIZE_MIN_def MEAL_SIZE_MAX_def)
  then show ?thesis unfolding fisk_accepts_eventually_def by blast
qed

theorem sample_meal_size_loglogistic_spec_witness:
  "fisk_accepts_eventually test_generator \<and> (0::int) \<le> 2 \<and>
   draw_many (gen_fisk test_generator MEAL_SIZE_A MEAL_SIZE_G MEAL_SIZE_B) 3 0 =
     ([92711 / 1250, 92711 / 1250, 92711 / 1250], 3) \<and>
   nat 2 \<le> length (filter meal_size_accepted [92711 / 1250, 92711 / 1250, 92711 / 1250]) \<and>
   (\<exists>s3. sample_meal_size_loglogistic test_generator 2 0 = Some ([92711 / 1250, 92711 / 1250], s3)) \<and>
   (\<exists>ys s3. sample_meal_size_loglogistic test_generator 2 0 = Some (ys, s3) \<and>
      int (length ys) = 2 \<and> list_all (\<lambda>x. 5 \<le> x \<and> x \<le> 800) ys)"
proof -
  have d: "draw_many (gen_fisk test_generator MEAL_SIZE_A MEAL_SIZE_G MEAL_SIZE_B) 3 0 =
     ([92711 / 1250, 92711 / 1250, 92711 / 1250], 3)"
    by (simp add: test_generator_simps numeral_3_eq_3 MEAL_SIZE_A_def MEAL_SIZE_G_def MEAL_SIZE_B_def)
  have f: "filter meal_size_accepted [92711 / 1250, 92711 / 1250, 92711 / 1250]
      = [92711 / 1250, 92711 / 1250, 92711 / 1250]"
    by (simp add: meal_size_accepted_def MEAL_SIZE_MIN_def MEAL_SIZE_MAX_def)
  show ?thesis
    using sample_meal_size_loglogistic_spec [of test_generator 2 0 "[]" 0 3
        "[92711 / 1250, 92711 / 1250, 92711 / 1250]" 3] d f fisk_accepts_eventually_test
    by (simp add: numeral_2_eq_2)
qed

subsection \<open>Arrays\<close>

lemma length_reshape: "length (reshape r c xs) = r"
  by (induction r arbitrary: xs) simp_all

lemma concat_reshape: "concat (reshape r c xs) = take (r * c) xs"
proof (induction r arbitrary: xs)
  case 0
  show ?case by simp
next
  case (Suc r)
  have "take c xs @ take (r * c) (drop c xs) = take (c + r * c) xs"
    by (simp add: take_add)
  with Suc show ?case by simp
qed

lemma reshape_take: "reshape r c (take (r * c) xs) = reshape r c xs"
proof (induction r arbitrary: xs)
  case 0
  show ?case by simp
next
  case (Suc r)
  have "take c (take (c + r * c) xs) = take c xs" by simp
  moreover have "drop c (take (c + r * c) xs) = take (r * c) (drop c xs)"
    by (simp add: drop_take)
  ultimately show ?case using Suc by simp
qed

lemma reshape_concat_reshape: "reshape r c (concat (reshape r c xs)) = reshape r c xs"
  by (simp add: concat_reshape reshape_take)

lemma sum_list_mono2:
  "list_all2 (\<lambda>a b. a \<le> b) xs ys \<Longrightarrow> sum_list xs \<le> (sum_list ys :: nat)"
  by (induction rule: list_all2_induct) auto

lemma reshape_sums_le:
  "list_all2 (\<lambda>a b. a \<le> b) ys xs \<Longrightarrow>
   list_all2 (\<lambda>a b. a \<le> b) (map sum_list (reshape r c ys)) (map sum_list (reshape r c (xs :: nat list)))"
proof (induction r arbitrary: xs ys)
  case 0
  show ?case by simp
next
  case (Suc r)
  have t: "list_all2 (\<lambda>a b. a \<le> b) (take c ys) (take c xs)"
    using Suc.prems by (rule list_all2_takeI)
  have d: "list_all2 (\<lambda>a b. a \<le> b) (drop c ys) (drop c xs)"
    using Suc.prems by (rule list_all2_dropI)
  show ?case using sum_list_mono2 [OF t] Suc.IH [OF d] by simp
qed

lemma mask_assign_le:
  "mask_assign xs vs = Some ill \<Longrightarrow> list_all (\<lambda>v. v \<le> 1) vs \<Longrightarrow>
   list_all2 (\<lambda>i x. i \<le> x \<and> (i = 1 \<longrightarrow> x = 1)) ill xs"
proof (induction xs vs arbitrary: ill rule: mask_assign.induct)
  case 1
  then show ?case by simp
next
  case (2 v vs)
  then show ?case by simp
next
  case (3 x xs vs)
  show ?case
  proof (cases "x = 1")
    case True
    with 3(3) obtain v vs' ill' where vs: "vs = v # vs'" and m: "mask_assign xs vs' = Some ill'"
      and ill: "ill = v # ill'"
      by (auto split: list.splits)
    have "list_all (\<lambda>v. v \<le> 1) vs'" "v \<le> 1" using 3(4) vs by simp_all
    with 3(1) [OF True vs m] True ill show ?thesis by simp
  next
    case False
    with 3(3) obtain ill' where m: "mask_assign xs vs = Some ill'" and ill: "ill = 0 # ill'"
      by auto
    with 3(2) [OF False m 3(4)] show ?thesis by simp
  qed
qed

lemma draw_many_of_bool_le:
  "list_all (\<lambda>v. v \<le> (1::nat)) (map of_bool bs)"
  by (induction bs) simp_all

lemma illness_outcomes_le:
  assumes "illness_outcomes L infected r c s = (Inr ill, s1)"
  shows "\<exists>ill_flat. ill = reshape r c ill_flat \<and>
    list_all2 (\<lambda>i x. i \<le> x \<and> (i = 1 \<longrightarrow> x = 1)) ill_flat (concat infected)"
proof -
  from assms obtain bs s' where
    "draw_many (gen_bernoulli L PR_ILLNESS_GIVEN_INFECTION) (sum_list (concat infected)) s = (bs, s')"
    by (cases "draw_many (gen_bernoulli L PR_ILLNESS_GIVEN_INFECTION) (sum_list (concat infected)) s")
  with assms obtain ill_flat where
    m: "mask_assign (concat infected) (map of_bool bs) = Some ill_flat" and i: "ill = reshape r c ill_flat"
    by (auto simp: illness_outcomes_def np_random_binomial_size_def split: if_splits option.splits)
  from mask_assign_le [OF m draw_many_of_bool_le] i show ?thesis by blast
qed

subsection \<open>Concrete runs\<close>

text \<open>
  Two consecutive runs on the test generator, the second one started in the state the first
  one leaves, and a run whose minimum effluent concentration is any value but the median.
\<close>

lemma test_site_conc_any:
  "site_concentrations test_generator test_args s = (Inr [Finite 24, Finite 24], s + 4)"
  by (simp add: site_concentrations_def effluent_concentrations_def test_args_def
      sample_hockey_stick_concentration_def hockey_h1_def hockey_xp_def py_div_def
      hockey_stick_transform_def middle_segment_def test_generator_simps
      sample_ecdf_def np_random_choice_def numeral_2_eq_2)

lemma test_exposure:
  "exposure_factors test_generator test_args s =
     Some (Inr ([[50, 50], [50, 50]], [[1, 1], [1, 1]]), s)"
  by (simp add: exposure_factors_def test_args_def np_full_def numeral_2_eq_2)

lemma test_doses:
  "continuous_doses [Finite 24, Finite 24] [[50, 50], [50, 50]] [[1, 1], [1, 1]] =
     [[Finite (6 / 5), Finite (6 / 5)], [Finite (6 / 5), Finite (6 / 5)]]"
  by (simp add: continuous_doses_def)

lemma test_discretize:
  "discretize_dose test_generator [Finite (6 / 5), Finite (6 / 5), Finite (6 / 5), Finite (6 / 5)] 4 =
     (Inr [1, 1, 2, 1], 8)"
  by (simp add: discretize_dose_def np_random_binomial_def f_sub_def test_generator_def)

lemma test_probabilities:
  "infection_probabilities test_generator
     [[Finite (6 / 5), Finite (6 / 5)], [Finite (6 / 5), Finite (6 / 5)]] 2 2 4 =
     (Inr [[Finite (8 / 19), Finite (8 / 19)], [Finite (1840 / 4161), Finite (8 / 19)]], 8)"
  by (simp add: infection_probabilities_def test_discretize numeral_2_eq_2 beta_binomial_Cons beta_binomial_dose_one beta_binomial_dose_two)

lemma test_infected:
  "infection_outcomes test_generator
     [[Finite (8 / 19), Finite (8 / 19)], [Finite (1840 / 4161), Finite (8 / 19)]] 2 2 8 =
     (Inr [[0, 1], [0, 0]], 12)"
  by (simp add: infection_outcomes_def np_random_binomial_def test_generator_simps numeral_2_eq_2)

lemma test_ill:
  "illness_outcomes test_generator [[0, Suc 0], [0, 0]] 2 2 12 = (Inr [[0, 1], [0, 0]], 13)"
  by (simp add: illness_outcomes_def np_random_binomial_size_def test_generator_simps
      PR_ILLNESS_GIVEN_INFECTION_def numeral_2_eq_2)

lemma test_run:
  "run_shellfish_qmra_advanced test_generator test_args 0 =
     Some (Inr \<lparr>res_site_name = ''Site A'', res_mode = ''simple'', res_num_people = 2,
       res_iterations = 2, infections_min = 0, infections_max = 1,
       infections_distribution = [1, 0], illness_min = 0, illness_max = 1,
       illness_distribution = [1, 0]\<rparr>, 13)"
proof -
  have a: "nat (iterations test_args) = 2" "num_people test_args = 2"
    by (simp_all add: test_args_def)
  show ?thesis
    unfolding run_shellfish_qmra_advanced_def
    by (simp add: test_site_conc_any test_exposure test_doses a test_probabilities test_infected test_ill
      build_results_def np_min_def np_max_def)
     (simp add: test_args_def)
qed






lemma test_effluent:
  "m \<noteq> 10 \<Longrightarrow> effluent_concentrations test_generator (test_args\<lparr>effluent_min := m, dilution_data := d\<rparr>) s =
     (Inr [Finite 48, Finite 48], s + 2)"
  by (simp add: effluent_concentrations_def test_args_def
      sample_hockey_stick_concentration_def hockey_h1_def hockey_xp_def py_div_def
      hockey_stick_transform_def middle_segment_def test_generator_simps numeral_2_eq_2)

lemma test_site_conc_min:
  "m \<noteq> 10 \<Longrightarrow> site_concentrations test_generator (test_args\<lparr>effluent_min := m\<rparr>) s =
     (Inr [Finite 24, Finite 24], s + 4)"
  by (simp add: site_concentrations_def effluent_concentrations_def test_args_def
      sample_hockey_stick_concentration_def hockey_h1_def hockey_xp_def py_div_def
      hockey_stick_transform_def middle_segment_def test_generator_simps
      sample_ecdf_def np_random_choice_def numeral_2_eq_2)

lemma test_exposure_min:
  "exposure_factors test_generator (test_args\<lparr>effluent_min := m\<rparr>) s =
     Some (Inr ([[50, 50], [50, 50]], [[1, 1], [1, 1]]), s)"
  by (simp add: exposure_factors_def test_args_def np_full_def numeral_2_eq_2)

lemma test_run_min:
  assumes "m \<noteq> 10"
  shows "run_shellfish_qmra_advanced test_generator (test_args\<lparr>effluent_min := m\<rparr>) 0 =
     Some (Inr \<lparr>res_site_name = ''Site A'', res_mode = ''simple'', res_num_people = 2,
       res_iterations = 2, infections_min = 0, infections_max = 1,
       infections_distribution = [1, 0], illness_min = 0, illness_max = 1,
       illness_distribution = [1, 0]\<rparr>, 13)"
proof -
  have a: "nat (iterations test_args) = 2" "num_people test_args = 2"
    by (simp_all add: test_args_def)
  show ?thesis
    unfolding run_shellfish_qmra_advanced_def
    by (simp add: test_site_conc_min [OF assms] test_exposure_min test_doses a test_probabilities
      test_infected test_ill build_results_def np_min_def np_max_def)
     (simp add: test_args_def)
qed

subsection \<open>The orchestrator\<close>

lemma build_results_distributions:
  "build_results a infd ill = Inr res \<Longrightarrow>
   infections_distribution res = infd \<and> illness_distribution res = ill"
  by (auto simp: build_results_def split: sum.splits)

lemma infection_outcomes_reshape:
  "infection_outcomes L p r c s = (Inr infected, s1) \<Longrightarrow> \<exists>flat. infected = reshape r c flat"
  by (auto simp: infection_outcomes_def split: prod.splits sum.splits)

lemma run_success_steps:
  assumes "run_shellfish_qmra_advanced L a s = Some (Inr res, s5)"
  shows "\<exists>p s3 infected s4 ill.
    infection_outcomes L p (nat (iterations a)) (num_people a) s3 = (Inr infected, s4) \<and>
    illness_outcomes L infected (nat (iterations a)) (num_people a) s4 = (Inr ill, s5) \<and>
    build_results a (map sum_list infected) (map sum_list ill) = Inr res"
  using assms
  by (auto simp: run_shellfish_qmra_advanced_def Let_def
      split: prod.splits sum.splits option.splits) blast

text \<open>
  Claim C3. In every result of \<open>run_shellfish_qmra_advanced\<close> the two count arrays have one
  entry per iteration, the illness count of an iteration is at most its infection count, and
  it is 0 when the infection count is 0. Per individual: in the array that step 10 returns,
  an entry is at most the infection outcome at the same position, and an illness outcome of 1
  stands where the infection outcome is 1.
\<close>

theorem run_illness_le_infection:
  "(run_shellfish_qmra_advanced L a s = Some (Inr res, s5) \<longrightarrow>
      length (infections_distribution res) = nat (iterations a) \<and>
      length (illness_distribution res) = nat (iterations a) \<and>
      list_all2 (\<lambda>x y. x \<le> y \<and> (y = 0 \<longrightarrow> x = 0))
        (illness_distribution res) (infections_distribution res)) \<and>
   (illness_outcomes L infected r c s4 = (Inr ill, s6) \<longrightarrow>
      (\<exists>ill_flat. ill = reshape r c ill_flat \<and>
         list_all2 (\<lambda>i x. i \<le> x \<and> (i = 1 \<longrightarrow> x = 1)) ill_flat (concat infected)))"
proof (rule conjI; rule impI)
  assume run: "run_shellfish_qmra_advanced L a s = Some (Inr res, s5)"
  let ?r = "nat (iterations a)" and ?c = "num_people a"
  from run_success_steps [OF run] obtain p s3 infd s4 illd where
    io: "infection_outcomes L p ?r ?c s3 = (Inr infd, s4)" and
    illd: "illness_outcomes L infd ?r ?c s4 = (Inr illd, s5)" and
    br: "build_results a (map sum_list infd) (map sum_list illd) = Inr res"
    by blast
  from infection_outcomes_reshape [OF io] obtain flat where infd: "infd = reshape ?r ?c flat"
    by blast
  from illness_outcomes_le [OF illd] obtain ill_flat where
    ill: "illd = reshape ?r ?c ill_flat" and
    le: "list_all2 (\<lambda>i x. i \<le> x \<and> (i = 1 \<longrightarrow> x = 1)) ill_flat (concat infd)"
    by blast
  have inf2: "infd = reshape ?r ?c (concat infd)"
    unfolding infd by (simp add: reshape_concat_reshape)
  from le have "list_all2 (\<lambda>a b. a \<le> b) ill_flat (concat infd)"
    by (rule list_all2_mono) simp
  then have "list_all2 (\<lambda>a b. a \<le> b) (map sum_list (reshape ?r ?c ill_flat))
      (map sum_list (reshape ?r ?c (concat infd)))"
    by (rule reshape_sums_le)
  then have "list_all2 (\<lambda>a b. a \<le> b) (map sum_list illd) (map sum_list infd)"
    using ill inf2 by simp
  then have "list_all2 (\<lambda>x y. x \<le> y \<and> (y = 0 \<longrightarrow> x = 0)) (map sum_list illd) (map sum_list infd)"
    by (rule list_all2_mono) simp
  moreover have "length (map sum_list infd) = ?r" "length (map sum_list illd) = ?r"
    using infd ill by (simp_all add: length_reshape)
  ultimately show "length (infections_distribution res) = nat (iterations a) \<and>
      length (illness_distribution res) = nat (iterations a) \<and>
      list_all2 (\<lambda>x y. x \<le> y \<and> (y = 0 \<longrightarrow> x = 0))
        (illness_distribution res) (infections_distribution res)"
    using build_results_distributions [OF br] by simp
next
  assume "illness_outcomes L infected r c s4 = (Inr ill, s6)"
  then show "\<exists>ill_flat. ill = reshape r c ill_flat \<and>
         list_all2 (\<lambda>i x. i \<le> x \<and> (i = 1 \<longrightarrow> x = 1)) ill_flat (concat infected)"
    by (rule illness_outcomes_le)
qed

theorem run_illness_le_infection_witness:
  "run_shellfish_qmra_advanced test_generator test_args 0 =
     Some (Inr \<lparr>res_site_name = ''Site A'', res_mode = ''simple'', res_num_people = 2,
       res_iterations = 2, infections_min = 0, infections_max = 1,
       infections_distribution = [1, 0], illness_min = 0, illness_max = 1,
       illness_distribution = [1, 0]\<rparr>, 13) \<and>
   list_all2 (\<lambda>x y. x \<le> y \<and> (y = 0 \<longrightarrow> x = 0)) [1, 0] [1, 0 :: nat] \<and>
   illness_outcomes test_generator [[0, 1], [0, 0]] 2 2 12 = (Inr [[0, 1], [0, 0]], 13) \<and>
   (\<exists>ill_flat. [[0, 1], [0, 0]] = reshape 2 2 ill_flat \<and>
      list_all2 (\<lambda>i x. i \<le> x \<and> (i = 1 \<longrightarrow> x = 1)) ill_flat (concat [[0, 1], [0, 0 :: nat]]))"
proof -
  have i: "illness_outcomes test_generator [[0, 1], [0, 0]] 2 2 12 = (Inr [[0, 1], [0, 0]], 13)"
    using test_ill by simp
  from run_illness_le_infection [where L = test_generator and a = test_args and s = 0
      and ?s5.0 = 13 and infected = "[[0, 1], [0, 0]]" and r = 2 and c = 2 and ill = "[[0, 1], [0, 0]]"
      and ?s4.0 = 12 and ?s6.0 = 13] test_run i
  show ?thesis by simp
qed

lemma hockey_stick_loop_state:
  "hockey_stick_loop L x0 x50 x100 pb h1 xp n s = (Inr xs, s1) \<Longrightarrow>
   length xs = n \<and> s1 = snd (draw_many (gen_random L) n s)"
proof (induction n arbitrary: s xs s1)
  case 0
  then show ?case by simp
next
  case (Suc n)
  obtain u s' where g: "gen_random L s = (u, s')" by (cases "gen_random L s")
  with Suc.prems obtain x ys where
    l: "hockey_stick_loop L x0 x50 x100 pb h1 xp n s' = (Inr ys, s1)" and xs: "xs = x # ys"
    by (auto split: sum.splits prod.splits)
  from Suc.IH [OF l] g xs show ?case
    by (simp split: prod.splits)
qed

lemma effluent_concentrations_state:
  assumes "effluent_concentrations L a s = (Inr xs, s1)"
  shows "length xs = nat (iterations a) \<and>
    s1 = snd (draw_many
      (if use_hockey_stick a then gen_random L
       else gen_triangular L (effluent_min a) (effluent_median a) (effluent_max a))
      (nat (iterations a)) s)"
proof (cases "use_hockey_stick a")
  case True
  with assms show ?thesis
    by (auto simp: effluent_concentrations_def sample_hockey_stick_concentration_def
        split: sum.splits dest: hockey_stick_loop_state)
next
  case False
  with assms show ?thesis
    by (auto simp: effluent_concentrations_def np_random_triangular_def
        split: if_splits prod.splits dest: draw_many_length)
qed

lemma run_empty_dilution:
  assumes "filter (\<lambda>x. \<not> isnan x) (dilution_data a) = []"
    and "effluent_concentrations L a s = (Inr xs, s1)"
  shows "run_shellfish_qmra_advanced L a s =
    Some (Inl (ValueError ''No valid dilution data provided''), s1)"
  using assms
  by (simp add: run_shellfish_qmra_advanced_def site_concentrations_def sample_ecdf_def)

lemma site_concentrations_no_iterations:
  assumes "iterations a \<le> 0"
  shows "(\<exists>e. site_concentrations L a s = (Inl e, s)) \<or>
    (iterations a = 0 \<and> site_concentrations L a s = (Inr [], s))"
proof (cases "effluent_concentrations L a s")
  case (Pair r s1)
  have n: "nat (iterations a) = 0" using assms by simp
  show ?thesis
  proof (cases r)
    case (Inl e)
    with Pair have "s1 = s"
      using n
      by (auto simp: effluent_concentrations_def sample_hockey_stick_concentration_def
          np_random_triangular_def split: if_splits sum.splits prod.splits)
    with Pair Inl show ?thesis by (simp add: site_concentrations_def)
  next
    case (Inr xs)
    with Pair effluent_concentrations_state [of L a s xs s1] n
    have xs: "xs = []" "s1 = s" by simp_all
    show ?thesis
      using Pair Inr xs assms
      by (auto simp: site_concentrations_def sample_ecdf_def np_random_choice_def Let_def)
  qed
qed

lemma run_no_iterations_rest:
  assumes "iterations a = 0"
  shows "\<exists>e. (case exposure_factors L a s of
        None \<Rightarrow> None
      | Some (Inl e, s2) \<Rightarrow> Some (Inl e, s2)
      | Some (Inr (meal_sizes, bafs), s2) \<Rightarrow>
     (let r = nat (iterations a); c = num_people a;
          doses_continuous = continuous_doses [] meal_sizes bafs
      in case infection_probabilities L doses_continuous r c s2 of
        (Inl e, s3) \<Rightarrow> Some (Inl e, s3)
      | (Inr p_infection, s3) \<Rightarrow>
     (case infection_outcomes L p_infection r c s3 of
        (Inl e, s4) \<Rightarrow> Some (Inl e, s4)
      | (Inr infected, s4) \<Rightarrow>
     (case illness_outcomes L infected r c s4 of
        (Inl e, s5) \<Rightarrow> Some (Inl e, s5)
      | (Inr ill, s5) \<Rightarrow>
          Some (build_results a (map sum_list infected) (map sum_list ill), s5))))) = Some (Inl e, s)"
proof -
  have l: "meal_size_loop L 0 [] s = Some ([], s)"
    by (subst meal_size_loop.simps) simp
  have e: "exposure_factors L a s = Some (Inr ([], []), s)"
    using assms l
    by (simp add: exposure_factors_def sample_meal_size_loglogistic_def py_slice_to_def
        sample_baf_def BAF_STD_def np_full_def Let_def)
  show ?thesis
    using assms
    by (simp add: e continuous_doses_def infection_probabilities_def discretize_dose_def
        np_random_binomial_def beta_binomial_infection_prob_def infection_outcomes_def
        illness_outcomes_def np_random_binomial_size_def PR_ILLNESS_GIVEN_INFECTION_def
        build_results_def np_min_def)
qed

lemma run_no_iterations:
  assumes "iterations a \<le> 0"
  shows "\<exists>e. run_shellfish_qmra_advanced L a s = Some (Inl e, s)"
proof -
  from site_concentrations_no_iterations [OF assms, of L s]
  show ?thesis
  proof
    assume "\<exists>e. site_concentrations L a s = (Inl e, s)"
    then show ?thesis by (auto simp: run_shellfish_qmra_advanced_def)
  next
    assume h: "iterations a = 0 \<and> site_concentrations L a s = (Inr [], s)"
    then show ?thesis
      using run_no_iterations_rest [of a L s]
      unfolding run_shellfish_qmra_advanced_def by simp
  qed
qed

text \<open>
  Claim C8, as amended. The function checks one thing: when no dilution value is left after
  the NaN entries are discarded, it fails with \<open>ValueError\<close> "No valid dilution data provided".
  The check stands in step 3, so the failure comes after the effluent concentrations of step 1
  have been drawn, one variate per iteration, and the generator is left in the state after
  these draws. A run with no iteration, or a negative count, fails without a single draw.
  The effluent bounds and their order are not checked by the function.
\<close>

theorem run_input_validation:
  "(filter (\<lambda>x. \<not> isnan x) (dilution_data a) = [] \<and>
    effluent_concentrations L a s = (Inr xs, s1) \<longrightarrow>
      run_shellfish_qmra_advanced L a s =
        Some (Inl (ValueError ''No valid dilution data provided''), s1) \<and>
      length xs = nat (iterations a) \<and>
      s1 = snd (draw_many
        (if use_hockey_stick a then gen_random L
         else gen_triangular L (effluent_min a) (effluent_median a) (effluent_max a))
        (nat (iterations a)) s)) \<and>
   (iterations a \<le> 0 \<longrightarrow> (\<exists>e. run_shellfish_qmra_advanced L a s = Some (Inl e, s)))"
proof (rule conjI; rule impI)
  assume h: "filter (\<lambda>x. \<not> isnan x) (dilution_data a) = [] \<and>
    effluent_concentrations L a s = (Inr xs, s1)"
  then show "run_shellfish_qmra_advanced L a s =
        Some (Inl (ValueError ''No valid dilution data provided''), s1) \<and>
      length xs = nat (iterations a) \<and>
      s1 = snd (draw_many
        (if use_hockey_stick a then gen_random L
         else gen_triangular L (effluent_min a) (effluent_median a) (effluent_max a))
        (nat (iterations a)) s)"
    using run_empty_dilution [of a L s xs s1] effluent_concentrations_state [of L a s xs s1]
    by simp
next
  assume "iterations a \<le> 0"
  then show "\<exists>e. run_shellfish_qmra_advanced L a s = Some (Inl e, s)"
    by (rule run_no_iterations)
qed

theorem run_input_validation_witness:
  "filter (\<lambda>x. \<not> isnan x) (dilution_data (test_args\<lparr>effluent_min := 1, dilution_data := [NaN]\<rparr>)) = [] \<and>
   effluent_concentrations test_generator (test_args\<lparr>effluent_min := 1, dilution_data := [NaN]\<rparr>) 0 =
     (Inr [Finite 48, Finite 48], 2) \<and>
   run_shellfish_qmra_advanced test_generator (test_args\<lparr>effluent_min := 1, dilution_data := [NaN]\<rparr>) 0 =
     Some (Inl (ValueError ''No valid dilution data provided''), 2) \<and>
   iterations (test_args\<lparr>iterations := 0\<rparr>) \<le> 0 \<and>
   (\<exists>e. run_shellfish_qmra_advanced test_generator (test_args\<lparr>iterations := 0\<rparr>) 0 = Some (Inl e, 0))"
proof -
  let ?a = "test_args\<lparr>effluent_min := 1, dilution_data := [NaN]\<rparr>"
  have e: "effluent_concentrations test_generator ?a 0 = (Inr [Finite 48, Finite 48], 2)"
    using test_effluent [of 1 "[NaN]" 0] by simp
  have f: "filter (\<lambda>x. \<not> isnan x) (dilution_data ?a) = []" by simp
  have "run_shellfish_qmra_advanced test_generator ?a 0 =
     Some (Inl (ValueError ''No valid dilution data provided''), 2)"
    using run_input_validation [of ?a test_generator 0 "[Finite 48, Finite 48]" 2] e f by blast
  moreover have "\<exists>e. run_shellfish_qmra_advanced test_generator (test_args\<lparr>iterations := 0\<rparr>) 0 = Some (Inl e, 0)"
    using run_input_validation [of "test_args\<lparr>iterations := 0\<rparr>" test_generator 0] by simp
  ultimately show ?thesis using e f by simp
qed

text \<open>
  The claim as it was stated fails: with an empty cleaned dilution set and two iterations the
  error is raised after two variates have been drawn, and a run whose minimum is above the
  median, or is negative, returns a result.
\<close>

theorem run_input_validation_counterexample:
  "run_shellfish_qmra_advanced test_generator (test_args\<lparr>effluent_min := 1, dilution_data := [NaN]\<rparr>) 0 =
     Some (Inl (ValueError ''No valid dilution data provided''), 2) \<and>
   run_shellfish_qmra_advanced test_generator (test_args\<lparr>effluent_min := 20\<rparr>) 0 =
     Some (Inr \<lparr>res_site_name = ''Site A'', res_mode = ''simple'', res_num_people = 2,
       res_iterations = 2, infections_min = 0, infections_max = 1,
       infections_distribution = [1, 0], illness_min = 0, illness_max = 1,
       illness_distribution = [1, 0]\<rparr>, 13) \<and>
   run_shellfish_qmra_advanced test_generator (test_args\<lparr>effluent_min := - 5\<rparr>) 0 =
     Some (Inr \<lparr>res_site_name = ''Site A'', res_mode = ''simple'', res_num_people = 2,
       res_iterations = 2, infections_min = 0, infections_max = 1,
       infections_distribution = [1, 0], illness_min = 0, illness_max = 1,
       illness_distribution = [1, 0]\<rparr>, 13)"
proof -
  have "run_shellfish_qmra_advanced test_generator (test_args\<lparr>effluent_min := 1, dilution_data := [NaN]\<rparr>) 0 =
     Some (Inl (ValueError ''No valid dilution data provided''), 2)"
    using run_empty_dilution [of "test_args\<lparr>effluent_min := 1, dilution_data := [NaN]\<rparr>" test_generator 0
        "[Finite 48, Finite 48]" 2] test_effluent [of 1 "[NaN]" 0]
    by simp
  then show ?thesis
    using test_run_min [of 20] test_run_min [of "- 5"] by simp
qed





























end
